theory Spec2Isabelle
  imports
    Main
    "HOL-Library.Char_ord"
    "HOL-Library.List_Lexorder"
    "HOL-Library.Sublist"
    "HOL-Library.Multiset"
    "HOL-Library.AList"
begin

section \<open>Strings\<close>

text \<open>
  A Go \<^verbatim>\<open>string\<close> is a sequence of bytes; it is modelled as \<^typ>\<open>string\<close>, a list of
  \<^typ>\<open>char\<close> (one \<^typ>\<open>char\<close> per byte). Go compares bytes and strings as unsigned
  bytes, lexicographically; that is the order of \<^theory_text>\<open>Char_ord\<close> and
  \<^theory_text>\<open>List_Lexorder\<close>.
\<close>

definition is_digit :: "char \<Rightarrow> bool" where
  \<comment> \<open>\<^verbatim>\<open>c >= '0' && c <= '9'\<close>\<close>
  "is_digit c = (CHR ''0'' \<le> c \<and> c \<le> CHR ''9'')"

section \<open>sbom: the package-line parser\<close>

text \<open>
  \<^verbatim>\<open>
  func parseApkPackage(s string) (name, version string) {
      for i := len(s) - 1; i >= 0; i-- {
          if s[i] == '-' && i+1 < len(s) && s[i+1] >= '0' && s[i+1] <= '9' {
              return s[:i], s[i+1:]
          }
      }
      return s, "unknown"
  }
  \<close>
  The loop counter runs from \<open>len(s) - 1\<close> down to \<open>0\<close>; the model counts \<open>k = i + 1\<close>
  from \<open>len(s)\<close> down to \<open>1\<close>, so that \<open>k = 0\<close> is the loop's exit. Every index read is
  below \<open>len(s)\<close>: \<open>s[i]\<close> because \<open>i \<le> len(s) - 1\<close>, \<open>s[i+1]\<close> behind its guard.
\<close>

fun parseApkPackage_loop :: "string \<Rightarrow> nat \<Rightarrow> string \<times> string" where
  "parseApkPackage_loop s 0 = (s, ''unknown'')"
| "parseApkPackage_loop s (Suc i) =
     (if s ! i = CHR ''-'' \<and> i + 1 < length s \<and> is_digit (s ! (i + 1))
      then (take i s, drop (i + 1) s)
      else parseApkPackage_loop s i)"

definition parseApkPackage :: "string \<Rightarrow> string \<times> string" where
  "parseApkPackage s = parseApkPackage_loop s (length s)"

text \<open>A position of \<open>s\<close> that holds a hyphen immediately followed by a digit.\<close>

definition split_point :: "string \<Rightarrow> nat \<Rightarrow> bool" where
  "split_point s i = (i + 1 < length s \<and> s ! i = CHR ''-'' \<and> is_digit (s ! (i + 1)))"

section \<open>Library functions used by the mount-lifecycle code\<close>

text \<open>
  \<^verbatim>\<open>strings.Split(s, "\n")\<close>: the substrings of \<open>s\<close> between the separators; a string
  without a separator (the empty string too) gives one substring.
\<close>

fun strings_Split :: "char \<Rightarrow> string \<Rightarrow> string list" where
  "strings_Split sep [] = [[]]"
| "strings_Split sep (c # cs) =
     (if c = sep then [] # strings_Split sep cs
      else (case strings_Split sep cs of
              [] \<Rightarrow> [[c]]
            | l # ls \<Rightarrow> (c # l) # ls))"

text \<open>
  \<^verbatim>\<open>strings.Fields(s)\<close> splits \<open>s\<close> around each run of white space, as
  \<^verbatim>\<open>unicode.IsSpace\<close> defines it, and returns the non-empty pieces. On a string of ASCII
  bytes the white space is tab, line feed, vertical tab, form feed, carriage return and
  space. A string with a byte above \<open>0x7F\<close> is decoded as UTF-8, and the white-space runes
  U+0085, U+00A0, U+1680, U+2000 to U+200A, U+2028, U+2029, U+202F, U+205F and U+3000
  separate fields too. The first byte of each of these encodings is a UTF-8 lead byte,
  which the decoder never consumes as part of another rune, so a white-space rune is
  exactly an occurrence of its encoding; \<open>space_width\<close> is the number of bytes of the
  white-space rune that starts a byte sequence, \<open>0\<close> when none does.
\<close>

definition ascii_space :: "char \<Rightarrow> bool" where
  "ascii_space c =
     (c = CHR 0x09 \<or> c = CHR 0x0A \<or> c = CHR 0x0B \<or> c = CHR 0x0C \<or> c = CHR 0x0D \<or>
      c = CHR 0x20)"

definition space2 :: "char \<Rightarrow> char \<Rightarrow> bool" where
  "space2 c0 c1 = (c0 = CHR 0xC2 \<and> (c1 = CHR 0x85 \<or> c1 = CHR 0xA0))"

definition space3 :: "char \<Rightarrow> char \<Rightarrow> char \<Rightarrow> bool" where
  "space3 c0 c1 c2 =
     (c0 = CHR 0xE1 \<and> c1 = CHR 0x9A \<and> c2 = CHR 0x80 \<or>
      c0 = CHR 0xE2 \<and> c1 = CHR 0x80 \<and>
        (c2 = CHR 0x80 \<or> c2 = CHR 0x81 \<or> c2 = CHR 0x82 \<or> c2 = CHR 0x83 \<or>
         c2 = CHR 0x84 \<or> c2 = CHR 0x85 \<or> c2 = CHR 0x86 \<or> c2 = CHR 0x87 \<or>
         c2 = CHR 0x88 \<or> c2 = CHR 0x89 \<or> c2 = CHR 0x8A \<or>
         c2 = CHR 0xA8 \<or> c2 = CHR 0xA9 \<or> c2 = CHR 0xAF) \<or>
      c0 = CHR 0xE2 \<and> c1 = CHR 0x81 \<and> c2 = CHR 0x9F \<or>
      c0 = CHR 0xE3 \<and> c1 = CHR 0x80 \<and> c2 = CHR 0x80)"

fun space_width :: "string \<Rightarrow> nat" where
  "space_width [] = 0"
| "space_width [c0] = (if ascii_space c0 then 1 else 0)"
| "space_width [c0, c1] =
     (if ascii_space c0 then 1 else if space2 c0 c1 then 2 else 0)"
| "space_width (c0 # c1 # c2 # _) =
     (if ascii_space c0 then 1 else if space2 c0 c1 then 2
      else if space3 c0 c1 c2 then 3 else 0)"

text \<open>
  The scan of \<^verbatim>\<open>strings.Fields\<close>: \<open>cur\<close> is the field being read (empty between
  fields), \<open>k\<close> the number of bytes of the current white-space rune still to skip.
\<close>

fun fields_scan :: "string \<Rightarrow> nat \<Rightarrow> string \<Rightarrow> string list" where
  "fields_scan cur k [] = (if cur = [] then [] else [cur])"
| "fields_scan cur (Suc k) (c # cs) = fields_scan cur k cs"
| "fields_scan cur 0 (c # cs) =
     (if 0 < space_width (c # cs)
      then (if cur = [] then [] else [cur]) @ fields_scan [] (space_width (c # cs) - 1) cs
      else fields_scan (cur @ [c]) 0 cs)"

definition strings_Fields :: "string \<Rightarrow> string list" where
  "strings_Fields s = fields_scan [] 0 s"

text \<open>\<^verbatim>\<open>strings.HasPrefix(s, prefix)\<close>.\<close>

definition strings_HasPrefix :: "string \<Rightarrow> string \<Rightarrow> bool" where
  "strings_HasPrefix s pre = prefix pre s"

text \<open>
  \<^verbatim>\<open>sort.Sort(sort.Reverse(sort.StringSlice(xs)))\<close> rearranges \<open>xs\<close> so that no element
  is smaller, in the byte-wise lexicographic order of Go strings, than a later one. The
  algorithm is not stable, but equal strings are the same value, so the resulting list
  is determined (\<open>sort_Reverse_unique\<close> below): it is the ascending sort, reversed.
\<close>

definition sort_Reverse_StringSlice :: "string list \<Rightarrow> string list" where
  "sort_Reverse_StringSlice xs = rev (sort xs)"

section \<open>rootfs: the mount scan of \<^verbatim>\<open>Unmount\<close>\<close>

text \<open>
  \<^verbatim>\<open>
  type Rootfs struct {
      Path    string // absolute path to the rootfs directory
      WorkDir string // parent working directory
      arch    string
  }
  \<close>
\<close>

record Rootfs =
  Path :: string
  WorkDir :: string
  arch :: string

text \<open>
  The first loop of \<^verbatim>\<open>Unmount\<close>, over the lines of \<^verbatim>\<open>/proc/mounts\<close>:
  \<^verbatim>\<open>
  for _, line := range strings.Split(string(data), "\n") {
      fields := strings.Fields(line)
      if len(fields) < 2 { continue }
      mp := fields[1]
      if strings.HasPrefix(mp, r.Path+"/") { mountPoints = append(mountPoints, mp) }
  }
  \<close>
\<close>

fun scan_mounts :: "string \<Rightarrow> string list \<Rightarrow> string list" where
  "scan_mounts rpath [] = []"
| "scan_mounts rpath (line # ls) =
     (let fields = strings_Fields line in
      if length fields < 2 then scan_mounts rpath ls
      else let mp = fields ! 1 in
        if strings_HasPrefix mp (rpath @ ''/'') then mp # scan_mounts rpath ls
        else scan_mounts rpath ls)"

text \<open>
  The mount points \<^verbatim>\<open>Unmount\<close> runs \<^verbatim>\<open>umount\<close> on, in the order it runs them, for the
  text \<open>data\<close> read from \<^verbatim>\<open>/proc/mounts\<close>.
\<close>

definition unmount_targets :: "Rootfs \<Rightarrow> string \<Rightarrow> string list" where
  "unmount_targets r data =
     sort_Reverse_StringSlice (scan_mounts (Path r) (strings_Split CHR 0x0A data))"

text \<open>
  The mount point a line of the mount table names: its second field, when it has one.
\<close>

definition line_mount_point :: "string \<Rightarrow> string option" where
  "line_mount_point line =
     (let fields = strings_Fields line in
      if length fields < 2 then None else Some (fields ! 1))"

definition table_mount_points :: "string \<Rightarrow> string list" where
  "table_mount_points data =
     List.map_filter line_mount_point (strings_Split CHR 0x0A data)"

text \<open>\<open>descendant rpath mp\<close>: the path \<open>mp\<close> lies strictly below the directory \<open>rpath\<close>.\<close>

definition descendant :: "string \<Rightarrow> string \<Rightarrow> bool" where
  "descendant rpath mp = prefix (rpath @ ''/'') mp"

section \<open>The host: files, the mount table, and the system calls used\<close>

text \<open>
  The code acts on the host it runs on. The part of the host it reads and changes is a
  state, passed explicitly:
  \<^item> \<open>files\<close>: the paths that exist on the host's file systems (files, directories and
    device nodes alike), each under the name it has where it is stored;
  \<^item> \<open>mounts\<close>: the live mount table, oldest mount first. A mount shows, at its mount
    point, the directory \<open>m_src\<close>: the source directory of a bind mount, and for any
    other file system a root of its own;
  \<^item> \<open>proc_mounts_readable\<close>: whether \<^verbatim>\<open>os.ReadFile("/proc/mounts")\<close> succeeds;
  \<^item> \<open>busy\<close>: the mount points whose \<^verbatim>\<open>umount\<close> fails (a file below them is open, for
    instance);
  \<^item> \<open>locked\<close>: the stored paths that cannot be removed.
  Paths are clean absolute paths, as \<^verbatim>\<open>filepath.Join\<close> returns them; symbolic links on
  the host are not modelled.
\<close>

record mount =
  m_dev :: string
  m_point :: string
  m_type :: string
  m_opts :: string
  m_src :: string

record host =
  files :: "string list"
  mounts :: "mount list"
  proc_mounts_readable :: bool
  busy :: "string \<Rightarrow> bool"
  locked :: "string \<Rightarrow> bool"

datatype os_error = PathError string

text \<open>
  The text of \<^verbatim>\<open>/proc/mounts\<close>: one line for each mount, with the device, the mount
  point, the type, the options and two numbers, separated by single spaces. The kernel
  writes a space, a tab, a newline and a backslash inside a field as octal escapes and
  every other byte as it is, a carriage return and the bytes of U+00A0 among them. The
  model writes every field as it is: it is the kernel's text for the mounts whose fields
  hold none of the four, and the theorems that relate the text to the mounts take the
  fields free of white space and backslashes (\<open>plain_mount\<close> below).
\<close>

definition mount_line :: "mount \<Rightarrow> string" where
  "mount_line m =
     m_dev m @ '' '' @ m_point m @ '' '' @ m_type m @ '' '' @ m_opts m @ '' 0 0''"

definition proc_mounts :: "mount list \<Rightarrow> string" where
  "proc_mounts ms = concat (map (\<lambda>m. mount_line m @ [CHR 0x0A]) ms)"

definition os_ReadFile_proc_mounts :: "host \<Rightarrow> string option" where
  "os_ReadFile_proc_mounts h =
     (if proc_mounts_readable h then Some (proc_mounts (mounts h)) else None)"

text \<open>
  \<^verbatim>\<open>umount mp\<close> detaches the topmost (latest) mount at \<open>mp\<close>. It fails, and changes
  nothing, when nothing is mounted at \<open>mp\<close>, when another mount lies below \<open>mp\<close>, or when
  the mount is busy.
\<close>

fun remove_first :: "('a \<Rightarrow> bool) \<Rightarrow> 'a list \<Rightarrow> 'a list" where
  "remove_first P [] = []"
| "remove_first P (x # xs) = (if P x then xs else x # remove_first P xs)"

definition detach :: "string \<Rightarrow> mount list \<Rightarrow> mount list" where
  "detach mp ms = rev (remove_first (\<lambda>m. m_point m = mp) (rev ms))"

definition umount_fails :: "host \<Rightarrow> string \<Rightarrow> bool" where
  "umount_fails h mp =
     (busy h mp \<or> \<not> list_ex (\<lambda>m. m_point m = mp) (mounts h) \<or>
      list_ex (\<lambda>m. descendant mp (m_point m)) (mounts h))"

definition exec_umount :: "host \<Rightarrow> string \<Rightarrow> host \<times> bool" where
  "exec_umount h mp =
     (if umount_fails h mp then (h, False)
      else (h\<lparr>mounts := detach mp (mounts h)\<rparr>, True))"

text \<open>
  Path resolution: a path at or below a mount point names what the mount shows there.
  Of the mounts that cover a path, the one with the longest mount point decides, and of
  several at the same mount point the latest.
\<close>

definition at_or_below :: "string \<Rightarrow> string \<Rightarrow> bool" where
  "at_or_below q x = (x = q \<or> descendant q x)"

fun covering :: "mount list \<Rightarrow> string \<Rightarrow> mount option \<Rightarrow> mount option" where
  "covering [] p best = best"
| "covering (m # ms) p best =
     covering ms p
       (if at_or_below (m_point m) p \<and>
           (case best of None \<Rightarrow> True | Some b \<Rightarrow> length (m_point b) \<le> length (m_point m))
        then Some m else best)"

definition resolve :: "mount list \<Rightarrow> string \<Rightarrow> string" where
  "resolve ms p =
     (case covering ms p None of
        None \<Rightarrow> p
      | Some m \<Rightarrow> m_src m @ drop (length (m_point m)) p)"

text \<open>
  \<^verbatim>\<open>os.RemoveAll(path)\<close> removes \<open>path\<close> and everything below it. It removes what it can
  and returns an error when something stays: a locked path stays, and with it the
  directories above it. A path that does not exist is no error. The model removes the
  stored paths at or below what \<open>path\<close> resolves to. It does not descend into a mount
  that lies below \<open>path\<close>, and a mount point in use does not make it fail: it removes
  no more, and fails no more often, than the call does.
\<close>

definition pinned :: "host \<Rightarrow> string \<Rightarrow> bool" where
  "pinned h x = list_ex (\<lambda>y. at_or_below x y \<and> locked h y) (files h)"

definition os_RemoveAll :: "host \<Rightarrow> string \<Rightarrow> host \<times> os_error option" where
  "os_RemoveAll h p =
     (let q = resolve (mounts h) p;
          kept = filter (\<lambda>x. \<not> at_or_below q x \<or> pinned h x) (files h)
      in (h\<lparr>files := kept\<rparr>,
          if list_ex (at_or_below q) kept then Some (PathError q) else None))"

text \<open>
  \<^verbatim>\<open>os.ReadDir(dir)\<close> returns the names of the entries of \<open>dir\<close>, sorted, and an error
  (with no entries) when the directory does not exist.
\<close>

definition entry_name :: "string \<Rightarrow> string \<Rightarrow> string option" where
  "entry_name q x =
     (if descendant q x then Some (takeWhile (\<lambda>c. c \<noteq> CHR ''/'') (drop (length q + 1) x))
      else None)"

definition os_ReadDir :: "host \<Rightarrow> string \<Rightarrow> string list \<times> os_error option" where
  "os_ReadDir h p =
     (let q = resolve (mounts h) p in
      if q \<in> set (files h)
      then (sort (remdups (List.map_filter (entry_name q) (files h))), None)
      else ([], Some (PathError q)))"

text \<open>
  \<^verbatim>\<open>filepath.Join(elem...)\<close> joins the elements with slashes and cleans the result. The
  elements joined here are a clean path (\<^verbatim>\<open>Rootfs.Path\<close> and \<^verbatim>\<open>Rootfs.WorkDir\<close> are
  themselves results of \<^verbatim>\<open>filepath.Join\<close>) followed by plain names, so that the joined
  path is clean already.
\<close>

fun filepath_Join :: "string list \<Rightarrow> string" where
  "filepath_Join [] = []"
| "filepath_Join [e] = e"
| "filepath_Join (e # es) = e @ ''/'' @ filepath_Join es"

section \<open>rootfs: \<^verbatim>\<open>Unmount\<close>, \<^verbatim>\<open>Cleanup\<close> and \<^verbatim>\<open>CleanupRootfs\<close>\<close>

text \<open>
  The second loop of \<^verbatim>\<open>Unmount\<close> runs \<^verbatim>\<open>umount\<close> on each mount point in turn; a
  failure prints a warning and the loop goes on. The log holds each \<^verbatim>\<open>umount\<close> that was
  run and whether it succeeded.
\<close>

fun run_umounts :: "host \<Rightarrow> string list \<Rightarrow> host \<times> (string \<times> bool) list" where
  "run_umounts h [] = (h, [])"
| "run_umounts h (mp # mps) =
     (let (h1, ok) = exec_umount h mp;
          (h2, log) = run_umounts h1 mps
      in (h2, (mp, ok) # log))"

text \<open>
  \<^verbatim>\<open>
  func (r *Rootfs) Unmount() {
      data, err := os.ReadFile("/proc/mounts")
      if err != nil { return }
      ... // the scan, the sort
      for _, mp := range mountPoints {
          cmd := exec.Command("umount", mp)
          if err := cmd.Run(); err != nil {
              fmt.Printf("  Warning: failed to unmount %s: %v\n", mp, err)
          }
      }
  }
  \<close>
\<close>

definition Unmount :: "Rootfs \<Rightarrow> host \<Rightarrow> host \<times> (string \<times> bool) list" where
  "Unmount r h =
     (case os_ReadFile_proc_mounts h of
        None \<Rightarrow> (h, [])
      | Some data \<Rightarrow> run_umounts h (unmount_targets r data))"

text \<open>
  \<^verbatim>\<open>
  func (r *Rootfs) Cleanup(removeWorkDir bool) {
      r.Unmount()
      if removeWorkDir { os.RemoveAll(r.WorkDir) }
  }
  \<close>
\<close>

definition Cleanup :: "Rootfs \<Rightarrow> bool \<Rightarrow> host \<Rightarrow> host" where
  "Cleanup r removeWorkDir h =
     (let (h1, _) = Unmount r h in
      if removeWorkDir then fst (os_RemoveAll h1 (WorkDir r)) else h1)"

text \<open>
  \<^verbatim>\<open>
  // MUST be called AFTER Unmount() -- otherwise it would delete host /dev entries.
  func (r *Rootfs) CleanupRootfs() error {
      cachePath := filepath.Join(r.Path, "var", "cache", "apk")
      os.RemoveAll(cachePath)
      // Only safe because Unmount() was called first
      devPath := filepath.Join(r.Path, "dev")
      entries, _ := os.ReadDir(devPath)
      for _, e := range entries {
          os.RemoveAll(filepath.Join(devPath, e.Name()))
      }
      return nil
  }
  \<close>
  The errors of \<^verbatim>\<open>os.RemoveAll\<close> and \<^verbatim>\<open>os.ReadDir\<close> are dropped where the source drops
  them.
\<close>

fun remove_entries :: "host \<Rightarrow> string \<Rightarrow> string list \<Rightarrow> host" where
  "remove_entries h devPath [] = h"
| "remove_entries h devPath (e # es) =
     (let (h1, _) = os_RemoveAll h (filepath_Join [devPath, e])
      in remove_entries h1 devPath es)"

definition CleanupRootfs :: "Rootfs \<Rightarrow> host \<Rightarrow> host \<times> os_error option" where
  "CleanupRootfs r h =
     (let cachePath = filepath_Join [Path r, ''var'', ''cache'', ''apk''];
          (h1, _) = os_RemoveAll h cachePath;
          devPath = filepath_Join [Path r, ''dev''];
          (entries, _) = os_ReadDir h1 devPath
      in (remove_entries h1 devPath entries, None))"

text \<open>
  A field of a mount-table line as the kernel prints it: not empty, and free of white
  space and backslashes.
\<close>

fun no_space :: "string \<Rightarrow> bool" where
  "no_space [] = True"
| "no_space (c # cs) = (space_width (c # cs) = 0 \<and> c \<noteq> CHR 0x5C \<and> no_space cs)"

definition plain_field :: "string \<Rightarrow> bool" where
  "plain_field s = (s \<noteq> [] \<and> no_space s)"

definition plain_mount :: "mount \<Rightarrow> bool" where
  "plain_mount m =
     (plain_field (m_dev m) \<and> plain_field (m_point m) \<and> plain_field (m_type m) \<and>
      plain_field (m_opts m))"

section \<open>main: the build pipeline \<^verbatim>\<open>runBuild\<close>\<close>

text \<open>
  The stages of the pipeline that other packages implement (configuration, host
  dependency check, bootstrap, provisioning, SBOM, bootloader staging, ISO assembly) are
  parameters: each maps the host to the host it leaves and reports whether it
  succeeded. \<^verbatim>\<open>fatal\<close> prints the error and calls \<^verbatim>\<open>os.Exit(1)\<close>, which ends the process
  without running the deferred \<^verbatim>\<open>rfs.Cleanup(true)\<close>; a normal return runs it.
  Of the configuration, the record keeps what \<^verbatim>\<open>runBuild\<close> branches on: the name, the
  services to enable (\<open>None\<close> for a \<^verbatim>\<open>nil\<close> \<^verbatim>\<open>cfg.Services\<close>) and the value of
  \<^verbatim>\<open>cfg.SBOMEnabled()\<close>. \<open>arg_config\<close> is the path argument (\<open>None\<close> when it is missing),
  \<open>uid\<close> the value of \<^verbatim>\<open>os.Getuid()\<close>.
\<close>

record Config =
  Name :: string
  Services :: "string list option"
  SBOMEnabled :: bool

record build_env =
  arg_config :: "string option"
  uid :: nat
  config_LoadConfig :: "string \<Rightarrow> Config option"
  iso_CheckHostDeps :: bool
  rootfs_Bootstrap :: "string \<Rightarrow> host \<Rightarrow> host \<times> Rootfs option"
  InstallPackages :: "Rootfs \<Rightarrow> host \<Rightarrow> host \<times> bool"
  SetupUsers :: "Rootfs \<Rightarrow> host \<Rightarrow> host \<times> bool"
  EnableServices :: "Rootfs \<Rightarrow> string list \<Rightarrow> host \<Rightarrow> host \<times> bool"
  sbom_Generate :: "Rootfs \<Rightarrow> host \<Rightarrow> host \<times> bool"
  os_MkdirAll :: "string \<Rightarrow> host \<Rightarrow> host \<times> bool"
  bootloader_Setup :: "Rootfs \<Rightarrow> string \<Rightarrow> host \<Rightarrow> host \<times> bool"
  iso_Build :: "Rootfs \<Rightarrow> string \<Rightarrow> host \<Rightarrow> host \<times> bool"

datatype exit = Exit nat | Return

text \<open>
  The last part of \<^verbatim>\<open>runBuild\<close>, from the bootloader step on:
  \<^verbatim>\<open>
  stagingDir := filepath.Join(rfs.WorkDir, "staging")
  if err := os.MkdirAll(stagingDir, 0755); err != nil { fatal(...) }
  // Unmount chroot bind mounts before cleaning -- CleanupRootfs removes /dev/*
  // which would destroy the HOST's /dev/null if /dev is still bind-mounted!
  rfs.Unmount()
  // Clean rootfs before packaging
  rfs.CleanupRootfs()
  if err := bootloader.Setup(rfs.Path, stagingDir); err != nil { fatal(...) }
  if err := iso.Build(rfs.Path, stagingDir, outputPath); err != nil { fatal(...) }
  \<close>
\<close>

definition runBuild_package :: "build_env \<Rightarrow> Rootfs \<Rightarrow> host \<Rightarrow> host \<times> exit" where
  "runBuild_package env rfs h =
     (let stagingDir = filepath_Join [WorkDir rfs, ''staging''] in
      case os_MkdirAll env stagingDir h of
        (h1, False) \<Rightarrow> (h1, Exit 1)
      | (h1, True) \<Rightarrow>
          let (h2, _) = Unmount rfs h1;
              (h3, _) = CleanupRootfs rfs h2
          in (case bootloader_Setup env rfs stagingDir h3 of
                (h4, False) \<Rightarrow> (h4, Exit 1)
              | (h4, True) \<Rightarrow>
                  (case iso_Build env rfs stagingDir h4 of
                     (h5, False) \<Rightarrow> (h5, Exit 1)
                   | (h5, True) \<Rightarrow> (Cleanup rfs True h5, Return))))"

text \<open>
  The steps of \<^verbatim>\<open>runBuild\<close> after the bootstrap, up to the bootloader step: packages,
  users, services (when the configuration names any), SBOM (when enabled). Each failure
  is \<^verbatim>\<open>fatal\<close>.
\<close>

definition runBuild_provision :: "build_env \<Rightarrow> Config \<Rightarrow> Rootfs \<Rightarrow> host \<Rightarrow> host \<times> exit" where
  "runBuild_provision env cfg rfs h =
     (case InstallPackages env rfs h of
        (h1, False) \<Rightarrow> (h1, Exit 1)
      | (h1, True) \<Rightarrow>
          (case SetupUsers env rfs h1 of
             (h2, False) \<Rightarrow> (h2, Exit 1)
           | (h2, True) \<Rightarrow>
               (case (case Services cfg of
                        None \<Rightarrow> (h2, True)
                      | Some enable \<Rightarrow> EnableServices env rfs enable h2) of
                  (h3, False) \<Rightarrow> (h3, Exit 1)
                | (h3, True) \<Rightarrow>
                    (case (if SBOMEnabled cfg then sbom_Generate env rfs h3 else (h3, True)) of
                       (h4, False) \<Rightarrow> (h4, Exit 1)
                     | (h4, True) \<Rightarrow> runBuild_package env rfs h4))))"

text \<open>
  The head of \<^verbatim>\<open>runBuild\<close>: the argument and root checks, the configuration, the host
  dependencies, and the bootstrap, after whose success \<^verbatim>\<open>rfs.Cleanup(true)\<close> is deferred.
\<close>

definition runBuild :: "build_env \<Rightarrow> host \<Rightarrow> host \<times> exit" where
  "runBuild env h =
     (case arg_config env of
        None \<Rightarrow> (h, Exit 1)
      | Some configPath \<Rightarrow>
          if uid env \<noteq> 0 then (h, Exit 1)
          else (case config_LoadConfig env configPath of
                  None \<Rightarrow> (h, Exit 1)
                | Some cfg \<Rightarrow>
                    if \<not> iso_CheckHostDeps env then (h, Exit 1)
                    else (case rootfs_Bootstrap env (Name cfg) h of
                            (h1, None) \<Rightarrow> (h1, Exit 1)
                          | (h1, Some rfs) \<Rightarrow> runBuild_provision env cfg rfs h1)))"

section \<open>Example hosts\<close>

text \<open>
  A build named \<open>demo\<close>: its working directory and root file system, and a host after
  the bootstrap, with \<^verbatim>\<open>/proc\<close> mounted and \<^verbatim>\<open>/dev\<close> and \<^verbatim>\<open>/sys\<close> bind-mounted below the
  root file system; \<^verbatim>\<open>/tmp\<close> is a file system of its own.
\<close>

definition demo_rootfs :: Rootfs where
  "demo_rootfs = \<lparr>Path = ''/tmp/distrorun-demo/rootfs'', WorkDir = ''/tmp/distrorun-demo'',
     arch = ''x86_64''\<rparr>"

definition demo_mounts :: "mount list" where
  "demo_mounts =
     [\<lparr>m_dev = ''devtmpfs'', m_point = ''/dev'', m_type = ''devtmpfs'', m_opts = ''rw'',
        m_src = ''/dev''\<rparr>,
      \<lparr>m_dev = ''tmpfs'', m_point = ''/tmp'', m_type = ''tmpfs'', m_opts = ''rw'',
        m_src = ''/tmp''\<rparr>,
      \<lparr>m_dev = ''none'', m_point = ''/tmp/distrorun-demo/rootfs/proc'', m_type = ''proc'',
        m_opts = ''rw'', m_src = ''proc:''\<rparr>,
      \<lparr>m_dev = ''devtmpfs'', m_point = ''/tmp/distrorun-demo/rootfs/dev'',
        m_type = ''devtmpfs'', m_opts = ''rw'', m_src = ''/dev''\<rparr>,
      \<lparr>m_dev = ''sysfs'', m_point = ''/tmp/distrorun-demo/rootfs/sys'', m_type = ''sysfs'',
        m_opts = ''rw'', m_src = ''/sys''\<rparr>]"

definition demo_files :: "string list" where
  "demo_files =
     [''/dev'', ''/dev/null'', ''/dev/sda'', ''/sys'', ''/sys/kernel'',
      ''/tmp/distrorun-demo'', ''/tmp/distrorun-demo/rootfs'',
      ''/tmp/distrorun-demo/rootfs/dev'', ''/tmp/distrorun-demo/rootfs/etc'',
      ''/tmp/distrorun-demo/rootfs/var/cache/apk/APKINDEX.tar.gz'']"

text \<open>On \<open>demo_host\<close> every \<^verbatim>\<open>umount\<close> succeeds.\<close>

definition demo_host :: host where
  "demo_host = \<lparr>files = demo_files, mounts = demo_mounts, proc_mounts_readable = True,
     busy = (\<lambda>_. False), locked = (\<lambda>_. False)\<rparr>"

text \<open>
  On \<open>busy_host\<close> the bind mount of \<^verbatim>\<open>/dev\<close> is busy: \<^verbatim>\<open>umount\<close> fails on it, as it
  does while a process started in the chroot holds a device open.
\<close>

definition busy_host :: host where
  "busy_host = demo_host\<lparr>busy := (\<lambda>mp. mp = ''/tmp/distrorun-demo/rootfs/dev'')\<rparr>"

text \<open>
  On \<open>bare_host\<close> nothing is mounted, the root file system has no \<^verbatim>\<open>dev\<close> directory and
  the package cache cannot be removed.
\<close>

definition bare_host :: host where
  "bare_host = \<lparr>files = [''/tmp/distrorun-demo'', ''/tmp/distrorun-demo/rootfs'',
       ''/tmp/distrorun-demo/rootfs/var/cache/apk/APKINDEX.tar.gz''],
     mounts = [], proc_mounts_readable = True, busy = (\<lambda>_. False),
     locked = (\<lambda>p. p = ''/tmp/distrorun-demo/rootfs/var/cache/apk/APKINDEX.tar.gz'')\<rparr>"

text \<open>
  On \<open>locked_dev_host\<close> nothing is mounted and the entry \<^verbatim>\<open>console\<close> of the root file
  system's \<^verbatim>\<open>dev\<close> directory cannot be removed.
\<close>

definition locked_dev_host :: host where
  "locked_dev_host = \<lparr>files = [''/tmp/distrorun-demo'', ''/tmp/distrorun-demo/rootfs'',
       ''/tmp/distrorun-demo/rootfs/dev'', ''/tmp/distrorun-demo/rootfs/dev/console''],
     mounts = [], proc_mounts_readable = True, busy = (\<lambda>_. False),
     locked = (\<lambda>p. p = ''/tmp/distrorun-demo/rootfs/dev/console'')\<rparr>"



text \<open>
  A run of the pipeline in which every stage of the other packages succeeds and leaves
  the host as it is; the bootstrap leaves the host \<open>h\<close> it is given with the mounts of
  \<open>demo_mounts\<close> in place.
\<close>

definition demo_env :: build_env where
  "demo_env = \<lparr>arg_config = Some ''demo.yaml'', uid = 0,
     config_LoadConfig = (\<lambda>_. Some \<lparr>Name = ''demo'', Services = None, SBOMEnabled = False\<rparr>),
     iso_CheckHostDeps = True,
     rootfs_Bootstrap = (\<lambda>_ h. (h, Some demo_rootfs)),
     InstallPackages = (\<lambda>_ h. (h, True)),
     SetupUsers = (\<lambda>_ h. (h, True)),
     EnableServices = (\<lambda>_ _ h. (h, True)),
     sbom_Generate = (\<lambda>_ h. (h, True)),
     os_MkdirAll = (\<lambda>_ h. (h, True)),
     bootloader_Setup = (\<lambda>_ _ h. (h, True)),
     iso_Build = (\<lambda>_ _ h. (h, True))\<rparr>"

section \<open>rootfs: artifact discovery and download\<close>

text \<open>
  The network and the YAML decoder are the environment of \<^verbatim>\<open>downloadMinirootfs\<close>:
  \<^item> \<open>http_Get url\<close> is the outcome of \<^verbatim>\<open>http.Get(url)\<close>: no response (the error is not
    \<^verbatim>\<open>nil\<close>), or a response with its status code and its body; a body that cannot be read
    to its end is \<open>None\<close>;
  \<^item> \<open>yaml_Unmarshal body\<close> is the list of records \<^verbatim>\<open>yaml.Unmarshal\<close> decodes from the index,
    \<open>None\<close> when it reports an error;
  \<^item> \<open>os_Create path\<close> tells whether \<^verbatim>\<open>os.Create(path)\<close> succeeds.
\<close>

record alpineRelease =
  Flavor :: string
  File :: string

record http_response =
  StatusCode :: nat
  Body :: "string option"

record net_env =
  http_Get :: "string \<Rightarrow> http_response option"
  yaml_Unmarshal :: "string \<Rightarrow> alpineRelease list option"
  os_Create :: "string \<Rightarrow> bool"

text \<open>The errors \<^verbatim>\<open>downloadMinirootfs\<close> returns, one for each \<^verbatim>\<open>fmt.Errorf\<close> of the source.\<close>

datatype download_error =
    FetchingIndex
  | FetchingIndexHTTP nat
  | ReadingIndex
  | ParsingIndex
  | EntryNotFound
  | Downloading
  | DownloadingHTTP nat
  | CreatingTarball
  | WritingTarball

text \<open>
  \<^verbatim>\<open>
  var filename string
  for _, rel := range releases {
      if rel.Flavor == "alpine-minirootfs" { filename = rel.File; break }
  }
  \<close>
\<close>

fun find_minirootfs :: "alpineRelease list \<Rightarrow> string" where
  "find_minirootfs [] = []"
| "find_minirootfs (rel # rels) =
     (if Flavor rel = ''alpine-minirootfs'' then File rel else find_minirootfs rels)"

definition baseURL :: "Rootfs \<Rightarrow> string" where
  "baseURL r = ''https://dl-cdn.alpinelinux.org/alpine/latest-stable/releases/'' @ arch r"

text \<open>
  The second half of \<^verbatim>\<open>downloadMinirootfs\<close>: the download of the tarball into \<open>dest\<close>. The
  result is the error, or the bytes written to \<open>dest\<close>.
\<close>

definition fetch_tarball :: "net_env \<Rightarrow> string \<Rightarrow> string \<Rightarrow> download_error + string" where
  "fetch_tarball env tarballURL dest =
     (case http_Get env tarballURL of
        None \<Rightarrow> Inl Downloading
      | Some resp2 \<Rightarrow>
          if StatusCode resp2 \<noteq> 200 then Inl (DownloadingHTTP (StatusCode resp2))
          else if \<not> os_Create env dest then Inl CreatingTarball
          else (case Body resp2 of
                  None \<Rightarrow> Inl WritingTarball
                | Some data \<Rightarrow> Inr data))"

text \<open>
  \<^verbatim>\<open>downloadMinirootfs\<close> returns the URLs it requested with \<^verbatim>\<open>http.Get\<close>, in order, and
  its result.
\<close>

definition downloadMinirootfs ::
  "Rootfs \<Rightarrow> net_env \<Rightarrow> string \<Rightarrow> string list \<times> (download_error + string)" where
  "downloadMinirootfs r env dest =
     (let releasesURL = baseURL r @ ''/latest-releases.yaml'' in
      case http_Get env releasesURL of
        None \<Rightarrow> ([releasesURL], Inl FetchingIndex)
      | Some resp \<Rightarrow>
          if StatusCode resp \<noteq> 200
          then ([releasesURL], Inl (FetchingIndexHTTP (StatusCode resp)))
          else (case Body resp of
                  None \<Rightarrow> ([releasesURL], Inl ReadingIndex)
                | Some body \<Rightarrow>
                    (case yaml_Unmarshal env body of
                       None \<Rightarrow> ([releasesURL], Inl ParsingIndex)
                     | Some releases \<Rightarrow>
                         let filename = find_minirootfs releases in
                         if filename = [] then ([releasesURL], Inl EntryNotFound)
                         else let tarballURL = baseURL r @ ''/'' @ filename in
                           ([releasesURL, tarballURL], fetch_tarball env tarballURL dest))))"

text \<open>
  Example networks for the architecture \<open>x86_64\<close>: one that serves the index of the
  specification's example and the tarball it names, one that is unreachable, one that
  answers the index request with status 404, and one whose index has no record of the
  flavor.
\<close>

definition demo_index :: "alpineRelease list" where
  "demo_index = [\<lparr>Flavor = ''alpine-standard'', File = ''alpine-standard-3.19.iso''\<rparr>,
     \<lparr>Flavor = ''alpine-minirootfs'', File = ''minirootfs-3.19.tar.gz''\<rparr>]"

definition demo_net :: net_env where
  "demo_net = \<lparr>
     http_Get = (\<lambda>url.
       if url = ''https://dl-cdn.alpinelinux.org/alpine/latest-stable/releases/x86_64/latest-releases.yaml''
       then Some \<lparr>StatusCode = 200, Body = Some ''index''\<rparr>
       else if url = ''https://dl-cdn.alpinelinux.org/alpine/latest-stable/releases/x86_64/minirootfs-3.19.tar.gz''
       then Some \<lparr>StatusCode = 200, Body = Some ''tarball''\<rparr>
       else Some \<lparr>StatusCode = 404, Body = Some []\<rparr>),
     yaml_Unmarshal = (\<lambda>body. if body = ''index'' then Some demo_index else None),
     os_Create = (\<lambda>_. True)\<rparr>"

definition offline_net :: net_env where
  "offline_net = demo_net\<lparr>http_Get := (\<lambda>_. None)\<rparr>"

definition missing_net :: net_env where
  "missing_net = demo_net\<lparr>http_Get := (\<lambda>_. Some \<lparr>StatusCode = 404, Body = Some []\<rparr>)\<rparr>"

definition other_flavors_net :: net_env where
  "other_flavors_net = demo_net\<lparr>yaml_Unmarshal :=
     (\<lambda>_. Some [\<lparr>Flavor = ''alpine-standard'', File = ''alpine-standard-3.19.iso''\<rparr>])\<rparr>"

section \<open>rootfs: the live-boot init script\<close>

text \<open>
  \<^verbatim>\<open>customInit\<close> is the text of the script that \<^verbatim>\<open>PatchInitramfs\<close> writes as \<^verbatim>\<open>/init\<close>, line
  by line as in the source; each line ends with a line feed.
\<close>

definition customInit_lines :: "string list" where
  \<open>customInit_lines =
    [''#!/bin/sh'',
     ''# DistroRun Live CD Init'',
     '''',
     ''# Install busybox symlinks (mount, sleep, modprobe, etc.)'',
     ''/bin/busybox --install -s'',
     '''',
     ''export PATH=/usr/bin:/bin:/usr/sbin:/sbin'',
     '''',
     ''# Mount essential virtual filesystems'',
     ''mount -t devtmpfs devtmpfs /dev'',
     ''mount -t proc proc /proc'',
     ''mount -t sysfs sysfs /sys'',
     '''',
     ''# Load kernel modules for CD-ROM and squashfs'',
     ''for mod in loop squashfs isofs sr_mod cdrom ata_piix ahci virtio_blk virtio_pci virtio_scsi; do'',
     ''    modprobe $mod 2>/dev/null'',
     ''done'',
     '''',
     ''# Wait for CD-ROM device to appear (up to 10 seconds)'',
     ''echo "DistroRun: Waiting for CD-ROM..."'',
     ''i=0'',
     ''while [ ! -b /dev/sr0 ] && [ $i -lt 10 ]; do'',
     ''    sleep 1'',
     ''    i=$((i + 1))'',
     ''done'',
     '''',
     ''if [ ! -b /dev/sr0 ]; then'',
     ''    echo "ERROR: CD-ROM device /dev/sr0 not found"'',
     ''    echo "Dropping to emergency shell..."'',
     ''    exec /bin/sh'',
     ''fi'',
     '''',
     ''# Mount the CD-ROM (ISO9660)'',
     ''mkdir -p /media/cdrom'',
     ''mount -t iso9660 -o ro /dev/sr0 /media/cdrom'',
     '''',
     ''if [ ! -f /media/cdrom/rootfs.squashfs ]; then'',
     ''    echo "ERROR: rootfs.squashfs not found on CD"'',
     ''    echo "Dropping to emergency shell..."'',
     ''    exec /bin/sh'',
     ''fi'',
     '''',
     ''# Mount squashfs as read-only lower layer'',
     ''mkdir -p /lower'',
     ''mount -t squashfs -o ro,loop /media/cdrom/rootfs.squashfs /lower'',
     '''',
     ''# Create tmpfs for writable upper layer'',
     ''mkdir -p /upper'',
     ''mount -t tmpfs tmpfs /upper'',
     ''mkdir -p /upper/upper /upper/work'',
     '''',
     ''# Create overlay: writable root = tmpfs on top of squashfs'',
     ''mkdir -p /sysroot'',
     ''mount -t overlay overlay '' @ [CHR 0x5C],
     ''    -o lowerdir=/lower,upperdir=/upper/upper,workdir=/upper/work '' @ [CHR 0x5C],
     ''    /sysroot'',
     '''',
     ''# Move virtual filesystems into the new root'',
     ''mkdir -p /sysroot/dev /sysroot/proc /sysroot/sys'',
     ''mount --move /dev /sysroot/dev'',
     ''mount --move /proc /sysroot/proc'',
     ''mount --move /sys /sysroot/sys'',
     '''',
     ''echo "DistroRun: Switching to root filesystem..."'',
     ''exec switch_root /sysroot /sbin/init'']\<close>

definition customInit :: string where
  "customInit = concat (map (\<lambda>l. l @ [CHR 0x0A]) customInit_lines)"

text \<open>
  What the script does when it runs is the sequence of its steps. A step is a command
  run once, a \<^verbatim>\<open>sleep 1\<close> of the wait loop, or one of the two \<^verbatim>\<open>exec\<close>s that end the
  script: \<^verbatim>\<open>exec /bin/sh\<close>, the emergency shell, and
  \<^verbatim>\<open>exec switch_root /sysroot /sbin/init\<close>. The script has no \<^verbatim>\<open>set -e\<close>: a command that
  fails does not stop it. What the steps depend on is the machine that boots:
  \<^item> \<open>sr0_present t\<close>: whether \<^verbatim>\<open>/dev/sr0\<close> is a block device \<open>t\<close> seconds after the wait
    began (the test \<^verbatim>\<open>[ -b /dev/sr0 ]\<close>);
  \<^item> \<open>squashfs_present\<close>: whether \<^verbatim>\<open>/media/cdrom/rootfs.squashfs\<close> is a file once the
    medium has been mounted (the test \<^verbatim>\<open>[ -f /media/cdrom/rootfs.squashfs ]\<close>).
\<close>

record boot_env =
  sr0_present :: "nat \<Rightarrow> bool"
  squashfs_present :: bool

datatype step = Cmd string | Sleep1 | ExecShell | ExecSwitchRoot

text \<open>The modules of the \<^verbatim>\<open>for mod in ...\<close> loop.\<close>

definition modules :: "string list" where
  "modules = [''loop'', ''squashfs'', ''isofs'', ''sr_mod'', ''cdrom'', ''ata_piix'', ''ahci'',
     ''virtio_blk'', ''virtio_pci'', ''virtio_scsi'']"

text \<open>
  \<^verbatim>\<open>
  i=0
  while [ ! -b /dev/sr0 ] && [ $i -lt 10 ]; do
      sleep 1
      i=$((i + 1))
  done
  \<close>
  One second passes in each round, so the test of round \<open>i\<close> reads the device \<open>i\<close>
  seconds after the wait began. The result is the steps of the loop and the final \<open>i\<close>.
\<close>

function wait_for_cdrom :: "boot_env \<Rightarrow> nat \<Rightarrow> step list \<times> nat" where
  "wait_for_cdrom env i =
     (if \<not> sr0_present env i \<and> i < 10
      then (let (steps, n) = wait_for_cdrom env (i + 1) in (Sleep1 # steps, n))
      else ([], i))"
  by pat_completeness auto
termination
  by (relation "measure (\<lambda>(env, i). 10 - i)") auto

text \<open>
  \<^verbatim>\<open>
  echo "ERROR: ..."
  echo "Dropping to emergency shell..."
  exec /bin/sh
  \<close>
\<close>

definition emergency_shell :: "string \<Rightarrow> step list" where
  \<open>emergency_shell msg =
     [Cmd (''echo "'' @ msg @ ''"''), Cmd ''echo "Dropping to emergency shell..."'', ExecShell]\<close>

text \<open>The script up to the wait loop.\<close>

definition customInit_setup :: "step list" where
  \<open>customInit_setup =
     [Cmd ''/bin/busybox --install -s'',
      Cmd ''export PATH=/usr/bin:/bin:/usr/sbin:/sbin'',
      Cmd ''mount -t devtmpfs devtmpfs /dev'',
      Cmd ''mount -t proc proc /proc'',
      Cmd ''mount -t sysfs sysfs /sys''] @
     map (\<lambda>m. Cmd (''modprobe '' @ m @ '' 2>/dev/null'')) modules @
     [Cmd ''echo "DistroRun: Waiting for CD-ROM..."'', Cmd ''i=0'']\<close>

text \<open>The script after the test for \<^verbatim>\<open>rootfs.squashfs\<close>, to its end.\<close>

definition customInit_overlay :: "step list" where
  \<open>customInit_overlay =
     [Cmd ''mkdir -p /lower'',
      Cmd ''mount -t squashfs -o ro,loop /media/cdrom/rootfs.squashfs /lower'',
      Cmd ''mkdir -p /upper'',
      Cmd ''mount -t tmpfs tmpfs /upper'',
      Cmd ''mkdir -p /upper/upper /upper/work'',
      Cmd ''mkdir -p /sysroot'',
      Cmd ''mount -t overlay overlay -o lowerdir=/lower,upperdir=/upper/upper,workdir=/upper/work /sysroot'',
      Cmd ''mkdir -p /sysroot/dev /sysroot/proc /sysroot/sys'',
      Cmd ''mount --move /dev /sysroot/dev'',
      Cmd ''mount --move /proc /sysroot/proc'',
      Cmd ''mount --move /sys /sysroot/sys'',
      Cmd ''echo "DistroRun: Switching to root filesystem..."'',
      ExecSwitchRoot]\<close>

text \<open>The script after the test for the device: the mount of the medium and what follows.\<close>

definition customInit_media :: "boot_env \<Rightarrow> step list" where
  "customInit_media env =
     [Cmd ''mkdir -p /media/cdrom'',
      Cmd ''mount -t iso9660 -o ro /dev/sr0 /media/cdrom''] @
     (if \<not> squashfs_present env
      then emergency_shell ''ERROR: rootfs.squashfs not found on CD''
      else customInit_overlay)"

text \<open>The whole script.\<close>

definition customInit_run :: "boot_env \<Rightarrow> step list" where
  "customInit_run env =
     customInit_setup @
     (let (sleeps, i) = wait_for_cdrom env 0 in
      sleeps @
      (if \<not> sr0_present env i
       then emergency_shell ''ERROR: CD-ROM device /dev/sr0 not found''
       else customInit_media env))"

text \<open>
  Three machines: one where the device never appears, and two where it appears after
  three seconds, without and with the compressed root image on the medium.
\<close>

definition no_cdrom :: boot_env where
  "no_cdrom = \<lparr>sr0_present = (\<lambda>_. False), squashfs_present = True\<rparr>"

definition late_cdrom_no_image :: boot_env where
  "late_cdrom_no_image = \<lparr>sr0_present = (\<lambda>t. 3 \<le> t), squashfs_present = False\<rparr>"

definition late_cdrom :: boot_env where
  "late_cdrom = \<lparr>sr0_present = (\<lambda>t. 3 \<le> t), squashfs_present = True\<rparr>"

section \<open>rootfs: the initramfs transcoder \<^verbatim>\<open>PatchInitramfs\<close>\<close>

text \<open>
  File contents are modelled by their format, not byte by byte. An entry of a member
  archive (cpio) is a path with a regular file (permission bits and content), a
  symbolic link (its target; a link has no permission bits of its own on Linux) or a
  directory (permission bits). Owners, times, device nodes and hard links are not
  modelled. The content of a file of the boot directory is
  \<^item> \<open>Gzip b\<close>: a complete gzip stream that decompresses to \<open>b\<close>;
  \<^item> \<open>GzipCut\<close>: a gzip header followed by a stream that is cut short or damaged;
  \<^item> \<open>Cpio entries\<close>: a member archive with these entries, in order;
  \<^item> \<open>Raw bytes\<close>: anything else (neither a gzip header nor a member archive).
\<close>

datatype node = RegularFile nat string | Symlink string | Directory nat

type_synonym tree = "(string \<times> node) list"

datatype blob = Gzip blob | GzipCut | Cpio tree | Raw string

text \<open>
  The errors \<^verbatim>\<open>PatchInitramfs\<close> returns, one for each \<^verbatim>\<open>fmt.Errorf\<close> of the source, in the
  order of the source.
\<close>

datatype patch_error =
    InitramfsNotFound
  | CreatingWorkDir
  | ReadingInitramfs
  | OpeningInitramfs
  | CreatingCpioFile
  | Decompressing
  | CreatingExtractDir
  | OpeningCpio
  | ExtractingCpio
  | WritingInit
  | CreatingNewCpio
  | ReadingNewCpio
  | CreatingNewInitramfs
  | Compressing

text \<open>
  The host of a run: \<open>os_fails e\<close> tells that the operation whose failure is reported as
  \<open>e\<close> fails for a reason of the host (a full disk, a missing tool, permissions);
  \<open>gz_Close_fails\<close> tells that \<^verbatim>\<open>gzWriter.Close()\<close>, which writes the end of the stream,
  fails; \<open>umask\<close> is the file mode creation mask of the process.
\<close>

record patch_env =
  os_fails :: "patch_error \<Rightarrow> bool"
  gz_Close_fails :: bool
  umask :: nat

text \<open>
  \<^verbatim>\<open>
  initramfsPath := filepath.Join(bootDir, "initramfs-lts")
  if _, err := os.Stat(initramfsPath); os.IsNotExist(err) {
      matches, _ := filepath.Glob(filepath.Join(bootDir, "initramfs-*"))
      if len(matches) == 0 { return fmt.Errorf("initramfs not found in %s", bootDir) }
      initramfsPath = matches[0]
  }
  \<close>
  The boot directory is the list of its files, name and content. \<^verbatim>\<open>filepath.Glob\<close> returns
  the matching names in lexical order.
\<close>

definition find_initramfs :: "(string \<times> blob) list \<Rightarrow> string option" where
  "find_initramfs boot =
     (if ''initramfs-lts'' \<in> set (map fst boot) then Some ''initramfs-lts''
      else (case filter (prefix ''initramfs-'') (sort (map fst boot)) of
              [] \<Rightarrow> None
            | m # _ \<Rightarrow> Some m))"

text \<open>
  \<^verbatim>\<open>
  gz, err := gzip.NewReader(gzFile)
  if err != nil {
      // Might not be gzip -- try as raw cpio
      cpioPath = initramfsPath
      goto extractCpio
  }
  {
      cpioFile, err := os.Create(cpioPath)
      if err != nil { return fmt.Errorf("creating cpio file: %w", err) }
      if _, err := io.Copy(cpioFile, gz); err != nil { ... "decompressing initramfs: %w" }
  }
  \<close>
  \<^verbatim>\<open>gzip.NewReader\<close> reads the header and fails when it is not a gzip header. The result
  is the content of the file at \<open>cpioPath\<close>.
\<close>

definition gunzip :: "patch_env \<Rightarrow> blob \<Rightarrow> patch_error + blob" where
  "gunzip env content =
     (case content of
        Gzip payload \<Rightarrow>
          if os_fails env CreatingCpioFile then Inl CreatingCpioFile
          else if os_fails env Decompressing then Inl Decompressing
          else Inr payload
      | GzipCut \<Rightarrow>
          if os_fails env CreatingCpioFile then Inl CreatingCpioFile
          else Inl Decompressing
      | _ \<Rightarrow> Inr content)"

text \<open>
  \<^verbatim>\<open>cpio -idm --quiet\<close> in the fresh directory \<open>extracted\<close>: each entry is created in
  turn, a later entry of the same path replacing an earlier one. The extracted tree is
  the list of its paths with what they hold. (The directories \<^verbatim>\<open>cpio -d\<close> creates for
  entries whose parent the archive does not hold are not modelled.)
\<close>

fun cpio_extract_entries :: "tree \<Rightarrow> tree \<Rightarrow> tree" where
  "cpio_extract_entries t [] = t"
| "cpio_extract_entries t ((p, n) # es) = cpio_extract_entries (AList.update p n t) es"

definition cpio_extract :: "patch_env \<Rightarrow> blob \<Rightarrow> patch_error + tree" where
  "cpio_extract env cpio =
     (case cpio of
        Cpio entries \<Rightarrow>
          if os_fails env ExtractingCpio then Inl ExtractingCpio
          else Inr (cpio_extract_entries [] entries)
      | _ \<Rightarrow> Inl ExtractingCpio)"

text \<open>
  \<^verbatim>\<open>os.WriteFile(name, data, perm)\<close> opens \<open>name\<close> with
  \<^verbatim>\<open>O_WRONLY|O_CREATE|O_TRUNC\<close>: a file that does not exist is created with the
  permissions \<open>perm\<close> less the bits of the umask; a file that exists is truncated and
  written, its permissions unchanged; a directory is an error; a symbolic link is
  followed (at most 40 links), relative to the directory of the link. A link to an
  absolute path leads out of the extracted tree, which then stays as it is; the write
  to the host's file, and its failure where the host has no such directory, are not
  modelled. The target of a relative link is appended to the directory as it is written,
  \<^verbatim>\<open>.\<close> and \<^verbatim>\<open>..\<close> unresolved. \<open>None\<close> is the error.
\<close>

definition dirname :: "string \<Rightarrow> string" where
  "dirname p = rev (dropWhile (\<lambda>c. c \<noteq> CHR ''/'') (rev p))"

fun os_WriteFile :: "nat \<Rightarrow> tree \<Rightarrow> string \<Rightarrow> string \<Rightarrow> nat \<Rightarrow> nat \<Rightarrow> tree option" where
  "os_WriteFile links t p data perm um =
     (case map_of t p of
        None \<Rightarrow> Some (AList.update p (RegularFile (perm - and perm um) data) t)
      | Some (RegularFile m _) \<Rightarrow> Some (AList.update p (RegularFile m data) t)
      | Some (Directory _) \<Rightarrow> None
      | Some (Symlink target) \<Rightarrow>
          (case links of
             0 \<Rightarrow> None
           | Suc k \<Rightarrow>
               if take 1 target = ''/'' then Some t
               else os_WriteFile k t (dirname p @ target) data perm um))"

text \<open>
  \<^verbatim>\<open>
  // Replace /init with our custom init
  initPath := filepath.Join(extractDir, "init")
  if err := os.WriteFile(initPath, []byte(customInit), 0755); err != nil { ... }
  \<close>
  \<open>0755\<close> is the number 493.
\<close>

definition write_init :: "patch_env \<Rightarrow> tree \<Rightarrow> tree option" where
  "write_init env extracted =
     (if os_fails env WritingInit then None
      else os_WriteFile 40 extracted ''init'' customInit 493 (umask env))"

text \<open>
  \<^verbatim>\<open>PatchInitramfs\<close> returns its error (\<open>None\<close> for \<^verbatim>\<open>nil\<close>) and the boot directory it
  leaves. The repacking, \<^verbatim>\<open>find . | cpio -o -H newc\<close>, writes the entries of the
  extracted tree, in the model in the order of extraction; the entry \<^verbatim>\<open>.\<close> and the order
  in which \<^verbatim>\<open>find\<close> lists a directory are not modelled.
  \<^verbatim>\<open>os.Create(initramfsPath)\<close> empties the file, and the gzip writer
  then writes the new archive into it. The errors of \<^verbatim>\<open>gzWriter.Close()\<close> and
  \<^verbatim>\<open>outFile.Close()\<close> are not looked at.
\<close>

definition PatchInitramfs ::
  "patch_env \<Rightarrow> (string \<times> blob) list \<Rightarrow> patch_error option \<times> (string \<times> blob) list" where
  "PatchInitramfs env boot =
     (case find_initramfs boot of
        None \<Rightarrow> (Some InitramfsNotFound, boot)
      | Some initramfs \<Rightarrow>
          if os_fails env CreatingWorkDir then (Some CreatingWorkDir, boot)
          else (case (if os_fails env ReadingInitramfs then None else map_of boot initramfs) of
            None \<Rightarrow> (Some ReadingInitramfs, boot)
          | Some compressedData \<Rightarrow>
              if os_fails env OpeningInitramfs then (Some OpeningInitramfs, boot)
              else (case gunzip env compressedData of
                Inl e \<Rightarrow> (Some e, boot)
              | Inr cpio \<Rightarrow>
                  if os_fails env CreatingExtractDir then (Some CreatingExtractDir, boot)
                  else if os_fails env OpeningCpio then (Some OpeningCpio, boot)
                  else (case cpio_extract env cpio of
                    Inl e \<Rightarrow> (Some e, boot)
                  | Inr extracted \<Rightarrow>
                      (case write_init env extracted of
                         None \<Rightarrow> (Some WritingInit, boot)
                       | Some patched \<Rightarrow>
                           if os_fails env CreatingNewCpio then (Some CreatingNewCpio, boot)
                           else if os_fails env ReadingNewCpio then (Some ReadingNewCpio, boot)
                           else if os_fails env CreatingNewInitramfs
                             then (Some CreatingNewInitramfs, boot)
                           else if os_fails env Compressing
                             then (Some Compressing, AList.update initramfs (Raw []) boot)
                           else (None,
                             AList.update initramfs
                               (if gz_Close_fails env then GzipCut else Gzip (Cpio patched))
                               boot))))))"

text \<open>What the gzip writer leaves in a file: a gzip stream, complete or cut short.\<close>

fun gzip_stream :: "blob \<Rightarrow> bool" where
  "gzip_stream (Gzip _) = True"
| "gzip_stream GzipCut = True"
| "gzip_stream _ = False"

text \<open>
  Examples: a host on which nothing fails, with the usual umask \<open>022\<close> (the number 18);
  the archive of the specification's example, a file \<open>a\<close> of mode \<open>0644\<close> (the number
  420) and a link \<open>b\<close> to it, compressed and not; an archive whose \<open>init\<close> is a regular
  file of mode \<open>0644\<close>; an archive whose \<open>init\<close> is a link to \<open>bin/busybox\<close>.
\<close>

definition quiet_host :: patch_env where
  "quiet_host = \<lparr>os_fails = (\<lambda>_. False), gz_Close_fails = False, umask = 18\<rparr>"

definition example_archive :: tree where
  "example_archive = [(''a'', RegularFile 420 ''content of a''), (''b'', Symlink ''a'')]"

definition boot_gzip :: "(string \<times> blob) list" where
  "boot_gzip = [(''initramfs-lts'', Gzip (Cpio example_archive)), (''vmlinuz-lts'', Raw ''kernel'')]"

definition boot_raw :: "(string \<times> blob) list" where
  "boot_raw = [(''initramfs-lts'', Cpio example_archive), (''vmlinuz-lts'', Raw ''kernel'')]"

definition boot_init_0644 :: "(string \<times> blob) list" where
  "boot_init_0644 =
     [(''initramfs-lts'',
       Gzip (Cpio [(''init'', RegularFile 420 ''#!/bin/sh''), (''bin/busybox'', RegularFile 493 ''ELF'')]))]"

definition boot_init_link :: "(string \<times> blob) list" where
  "boot_init_link =
     [(''initramfs-lts'',
       Gzip (Cpio [(''init'', Symlink ''bin/busybox''), (''bin/busybox'', RegularFile 493 ''ELF'')]))]"

section \<open>Properties of the package-line parser\<close>

lemma parseApkPackage_loop_none:
  "(\<And>i. i < k \<Longrightarrow> \<not> split_point s i) \<Longrightarrow> parseApkPackage_loop s k = (s, ''unknown'')"
  by (induction k) (auto simp: split_point_def)

lemma parseApkPackage_loop_last:
  "split_point s i \<Longrightarrow> i < k \<Longrightarrow> (\<And>j. i < j \<Longrightarrow> j < k \<Longrightarrow> \<not> split_point s j) \<Longrightarrow>
   parseApkPackage_loop s k = (take i s, drop (Suc i) s)"
proof (induction k)
  case 0
  then show ?case by simp
next
  case (Suc k)
  show ?case
  proof (cases "i = k")
    case True
    with Suc.prems(1) show ?thesis by (simp add: split_point_def)
  next
    case False
    with Suc.prems(2) have ik: "i < k" by simp
    have nk: "\<not> split_point s k" using Suc.prems(3) [of k] ik by simp
    have "parseApkPackage_loop s (Suc k) = parseApkPackage_loop s k"
      using nk by (auto simp: split_point_def)
    also have "\<dots> = (take i s, drop (Suc i) s)"
      using Suc.IH [OF Suc.prems(1) ik] Suc.prems(3) by simp
    finally show ?thesis .
  qed
qed

lemma parseApkPackage_loop_cases:
  "parseApkPackage_loop s k = (s, ''unknown'') \<and> (\<forall>i<k. \<not> split_point s i) \<or>
   (\<exists>i<k. split_point s i \<and> parseApkPackage_loop s k = (take i s, drop (Suc i) s))"
proof (induction k)
  case 0
  then show ?case by simp
next
  case (Suc k)
  show ?case
  proof (cases "split_point s k")
    case True
    then have "parseApkPackage_loop s (Suc k) = (take k s, drop (Suc k) s)"
      by (simp add: split_point_def)
    with True show ?thesis by blast
  next
    case False
    then have eq: "parseApkPackage_loop s (Suc k) = parseApkPackage_loop s k"
      by (auto simp: split_point_def)
    from Suc.IH show ?thesis
    proof
      assume "parseApkPackage_loop s k = (s, ''unknown'') \<and> (\<forall>i<k. \<not> split_point s i)"
      with False eq show ?thesis by (auto simp: less_Suc_eq)
    next
      assume "\<exists>i<k. split_point s i \<and> parseApkPackage_loop s k = (take i s, drop (Suc i) s)"
      with eq show ?thesis by (auto simp: less_Suc_eq)
    qed
  qed
qed

lemma split_point_bound: "split_point s i \<Longrightarrow> i < length s"
  by (simp add: split_point_def)

text \<open>
  C5. The parser splits a line at the last hyphen that is immediately followed by a
  digit: \<open>busybox-1.36.1-r1\<close> gives the name \<open>busybox\<close> and the version \<open>1.36.1-r1\<close>;
  a line with no hyphen immediately before a digit, such as \<open>no-version-here\<close>, is
  returned whole as the name, with the version \<open>unknown\<close>.
\<close>

theorem parseApkPackage_splits_at_last_hyphen_digit:
  "parseApkPackage ''busybox-1.36.1-r1'' = (''busybox'', ''1.36.1-r1'') \<and>
   parseApkPackage ''no-version-here'' = (''no-version-here'', ''unknown'') \<and>
   ((\<forall>i. \<not> split_point s i) \<longrightarrow> parseApkPackage s = (s, ''unknown'')) \<and>
   (split_point s i \<and> (\<forall>j>i. \<not> split_point s j) \<longrightarrow>
      parseApkPackage s = (take i s, drop (Suc i) s))"
proof (intro conjI impI)
  show "parseApkPackage ''busybox-1.36.1-r1'' = (''busybox'', ''1.36.1-r1'')"
    by (simp add: parseApkPackage_def is_digit_def)
  show "parseApkPackage ''no-version-here'' = (''no-version-here'', ''unknown'')"
    by (simp add: parseApkPackage_def is_digit_def)
  show "parseApkPackage s = (s, ''unknown'')" if "\<forall>i. \<not> split_point s i"
    unfolding parseApkPackage_def using that by (intro parseApkPackage_loop_none) simp
  show "parseApkPackage s = (take i s, drop (Suc i) s)"
    if "split_point s i \<and> (\<forall>j>i. \<not> split_point s j)"
    unfolding parseApkPackage_def using that
    by (intro parseApkPackage_loop_last) (auto dest: split_point_bound)
qed

theorem parseApkPackage_splits_at_last_hyphen_digit_witness:
  "split_point ''a-1-2'' 3 \<and> \<not> split_point ''a-1-2'' 4 \<and>
   parseApkPackage ''a-1-2'' = (''a-1'', ''2'') \<and>
   \<not> split_point ''abc'' 1 \<and> parseApkPackage ''abc'' = (''abc'', ''unknown'')"
proof -
  have sp: "split_point ''a-1-2'' 3"
    by (simp add: split_point_def is_digit_def)
  have last: "\<forall>j>3. \<not> split_point ''a-1-2'' j"
  proof (intro allI impI)
    fix j :: nat assume "3 < j"
    then have "\<not> j + 1 < length ''a-1-2''" by simp
    then show "\<not> split_point ''a-1-2'' j" by (simp add: split_point_def)
  qed
  have none: "\<forall>i. \<not> split_point ''abc'' i"
  proof
    fix i :: nat
    have "i = 0 \<or> i = 1 \<or> 2 \<le> i" by arith
    then show "\<not> split_point ''abc'' i"
      by (auto simp: split_point_def)
  qed
  from parseApkPackage_splits_at_last_hyphen_digit [of "''a-1-2''" 3] sp last
  have r1: "parseApkPackage ''a-1-2'' = (''a-1'', ''2'')" by simp
  from parseApkPackage_splits_at_last_hyphen_digit [of "''abc''" 0] none
  have r2: "parseApkPackage ''abc'' = (''abc'', ''unknown'')" by blast
  from sp last r1 none r2 show ?thesis by simp
qed

text \<open>
  C9. The parser is a total function. Whenever the version it returns is not the text
  \<open>unknown\<close>, the name, a hyphen and the version concatenated give the input back, and
  the version starts with a decimal digit. The version returned is never empty, so the
  result is never a pair of two empty strings.
\<close>

theorem parseApkPackage_reassembles:
  "(\<exists>name version. parseApkPackage s = (name, version) \<and> version \<noteq> [] \<and>
      (version \<noteq> ''unknown'' \<longrightarrow>
         name @ ''-'' @ version = s \<and> is_digit (hd version)))"
proof -
  from parseApkPackage_loop_cases [of s "length s"]
  show ?thesis
  proof
    assume "parseApkPackage_loop s (length s) = (s, ''unknown'') \<and>
      (\<forall>i<length s. \<not> split_point s i)"
    then show ?thesis by (simp add: parseApkPackage_def)
  next
    assume "\<exists>i<length s. split_point s i \<and>
      parseApkPackage_loop s (length s) = (take i s, drop (Suc i) s)"
    then obtain i where i: "i < length s" "split_point s i"
      and r: "parseApkPackage s = (take i s, drop (Suc i) s)"
      by (auto simp: parseApkPackage_def)
    from i(2) have len: "Suc i < length s" and hy: "s ! i = CHR ''-''"
      and dg: "is_digit (s ! Suc i)"
      by (simp_all add: split_point_def)
    have ne: "drop (Suc i) s \<noteq> []" using len by simp
    have hd: "hd (drop (Suc i) s) = s ! Suc i"
      using len by (simp add: hd_drop_conv_nth)
    have "take i s @ ''-'' @ drop (Suc i) s = take i s @ (s ! i) # drop (Suc i) s"
      using hy by simp
    also have "\<dots> = s"
      using i(1) by (simp add: id_take_nth_drop [symmetric])
    finally have cat: "take i s @ ''-'' @ drop (Suc i) s = s" .
    from r ne hd dg cat show ?thesis by simp
  qed
qed

theorem parseApkPackage_reassembles_witness:
  "parseApkPackage ''musl-1.2.4-r2'' = (''musl'', ''1.2.4-r2'') \<and>
   ''1.2.4-r2'' \<noteq> ''unknown'' \<and> ''musl'' @ ''-'' @ ''1.2.4-r2'' = ''musl-1.2.4-r2'' \<and>
   is_digit (hd ''1.2.4-r2'')"
proof -
  have e: "parseApkPackage ''musl-1.2.4-r2'' = (''musl'', ''1.2.4-r2'')"
    by (simp add: parseApkPackage_def is_digit_def)
  from parseApkPackage_reassembles [of "''musl-1.2.4-r2''"] e
  show ?thesis by simp
qed

section \<open>Properties of the mount scan\<close>

lemma scan_mounts_filter:
  "scan_mounts rpath ls = filter (descendant rpath) (List.map_filter line_mount_point ls)"
  by (induction ls)
    (simp_all add: List.map_filter_simps line_mount_point_def Let_def descendant_def
      strings_HasPrefix_def)

lemma sort_Reverse_unique:
  assumes "mset ys = mset xs" and "sorted (rev ys)"
  shows "ys = sort_Reverse_StringSlice xs"
proof -
  have "mset (rev ys) = mset xs" using assms(1) by simp
  with assms(2) have "sort xs = rev ys"
    by (intro properties_for_sort) simp_all
  then show ?thesis by (simp add: sort_Reverse_StringSlice_def)
qed

lemma ancestor_less: "descendant x y \<Longrightarrow> x < (y :: string)"
proof -
  assume "descendant x y"
  then obtain z where y: "y = x @ CHR ''/'' # z"
    by (auto simp: descendant_def prefix_def)
  have "(x, x @ CHR ''/'' # z) \<in> lexord {(u, v). u < v}"
    by (rule lexord_append_rightI) blast
  with y show "x < y" by (simp add: list_less_def)
qed

lemma descending_children_first:
  "sorted (rev (ys :: string list)) \<Longrightarrow> sorted_wrt (\<lambda>x y. \<not> descendant x y) ys"
proof -
  assume "sorted (rev ys)"
  then have "sorted_wrt (\<lambda>x y. y \<le> x) ys"
    by (simp add: sorted_wrt_rev)
  then show ?thesis
    by (rule sorted_wrt_mono_rel [rotated]) (auto dest: ancestor_less)
qed

lemma unmount_targets_mset:
  "mset (unmount_targets r data) =
   mset (filter (descendant (Path r)) (table_mount_points data))"
  by (simp add: unmount_targets_def sort_Reverse_StringSlice_def scan_mounts_filter
      table_mount_points_def)

lemma unmount_targets_descending: "sorted (rev (unmount_targets r data))"
  by (simp add: unmount_targets_def sort_Reverse_StringSlice_def)

text \<open>
  C2, as the code has it. The mount points \<^verbatim>\<open>Unmount\<close> unmounts are exactly the mount
  points of the table that lie strictly below the root path, each as often as the table
  lists it. They are put in descending byte-wise lexicographic order (not in order of
  path length), and in that order no mount point comes before one of its descendants:
  every child mount is unmounted before its parent. Over mounts at \<open>rootPath/a\<close>,
  \<open>rootPath/a/b\<close> and \<open>rootPath/c\<close> the order is \<open>rootPath/c\<close>, \<open>rootPath/a/b\<close>,
  \<open>rootPath/a\<close>.
\<close>

theorem unmount_targets_children_first:
  "mset (unmount_targets r data) =
     mset (filter (descendant (Path r)) (table_mount_points data)) \<and>
   sorted (rev (unmount_targets r data)) \<and>
   sorted_wrt (\<lambda>x y. \<not> descendant x y) (unmount_targets r data) \<and>
   unmount_targets \<lparr>Path = ''/tmp/distrorun-demo/rootfs'', WorkDir = ''/tmp/distrorun-demo'',
       arch = ''x86_64''\<rparr>
     (''proc /tmp/distrorun-demo/rootfs/a proc rw 0 0'' @ [CHR 0x0A] @
      ''devtmpfs /tmp/distrorun-demo/rootfs/a/b devtmpfs rw 0 0'' @ [CHR 0x0A] @
      ''sysfs /tmp/distrorun-demo/rootfs/c sysfs rw 0 0'' @ [CHR 0x0A])
   = [''/tmp/distrorun-demo/rootfs/c'', ''/tmp/distrorun-demo/rootfs/a/b'',
      ''/tmp/distrorun-demo/rootfs/a'']"
proof (intro conjI)
  show "mset (unmount_targets r data) =
     mset (filter (descendant (Path r)) (table_mount_points data))"
    by (rule unmount_targets_mset)
  show "sorted (rev (unmount_targets r data))"
    by (rule unmount_targets_descending)
  show "sorted_wrt (\<lambda>x y. \<not> descendant x y) (unmount_targets r data)"
    by (rule descending_children_first) (rule unmount_targets_descending)
  show "unmount_targets \<lparr>Path = ''/tmp/distrorun-demo/rootfs'', WorkDir = ''/tmp/distrorun-demo'',
       arch = ''x86_64''\<rparr>
     (''proc /tmp/distrorun-demo/rootfs/a proc rw 0 0'' @ [CHR 0x0A] @
      ''devtmpfs /tmp/distrorun-demo/rootfs/a/b devtmpfs rw 0 0'' @ [CHR 0x0A] @
      ''sysfs /tmp/distrorun-demo/rootfs/c sysfs rw 0 0'' @ [CHR 0x0A])
   = [''/tmp/distrorun-demo/rootfs/c'', ''/tmp/distrorun-demo/rootfs/a/b'',
      ''/tmp/distrorun-demo/rootfs/a'']"
    by code_simp
qed

text \<open>
  The order C2 states is not the order of the code: over mounts at \<open>rootPath/a\<close>,
  \<open>rootPath/a/b\<close> and \<open>rootPath/c\<close> the unmounts are not issued as \<open>rootPath/a/b\<close>,
  \<open>rootPath/a\<close>, \<open>rootPath/c\<close>, and the order issued is not one of descending path
  length (\<open>rootPath/c\<close> comes before the longer \<open>rootPath/a/b\<close>).
\<close>

theorem unmount_targets_not_by_length:
  "unmount_targets \<lparr>Path = ''/tmp/distrorun-demo/rootfs'', WorkDir = ''/tmp/distrorun-demo'',
       arch = ''x86_64''\<rparr>
     (''proc /tmp/distrorun-demo/rootfs/a proc rw 0 0'' @ [CHR 0x0A] @
      ''devtmpfs /tmp/distrorun-demo/rootfs/a/b devtmpfs rw 0 0'' @ [CHR 0x0A] @
      ''sysfs /tmp/distrorun-demo/rootfs/c sysfs rw 0 0'' @ [CHR 0x0A])
   \<noteq> [''/tmp/distrorun-demo/rootfs/a/b'', ''/tmp/distrorun-demo/rootfs/a'',
      ''/tmp/distrorun-demo/rootfs/c''] \<and>
   \<not> sorted_wrt (\<lambda>x y. length y \<le> length x)
     (unmount_targets \<lparr>Path = ''/tmp/distrorun-demo/rootfs'', WorkDir = ''/tmp/distrorun-demo'',
         arch = ''x86_64''\<rparr>
       (''proc /tmp/distrorun-demo/rootfs/a proc rw 0 0'' @ [CHR 0x0A] @
        ''devtmpfs /tmp/distrorun-demo/rootfs/a/b devtmpfs rw 0 0'' @ [CHR 0x0A] @
        ''sysfs /tmp/distrorun-demo/rootfs/c sysfs rw 0 0'' @ [CHR 0x0A]))"
  by code_simp

section \<open>The mount table as text, and the effect of unmounting\<close>

lemma space_width_Cons_space [simp]: "space_width (CHR '' '' # rest) = 1"
  by (cases rest; cases "tl rest") (auto simp: ascii_space_def)

lemma space_width_extend:
  "space_width (c # cs) = 0 \<Longrightarrow> space_width (c # cs @ CHR '' '' # rest) = 0"
proof (cases cs)
  case Nil
  assume "space_width (c # cs) = 0"
  with Nil show ?thesis
    by (cases rest) (auto simp: space2_def space3_def split: if_splits)
next
  case (Cons d ds)
  assume a: "space_width (c # cs) = 0"
  show ?thesis
  proof (cases ds)
    case Nil
    with Cons a show ?thesis
      by (auto simp: space3_def split: if_splits)
  next
    case (Cons e es)
    with \<open>cs = d # ds\<close> a show ?thesis
      by simp
  qed
qed

lemma fields_scan_field:
  "no_space s \<Longrightarrow>
   fields_scan cur 0 (s @ CHR '' '' # rest) =
     (if cur @ s = [] then [] else [cur @ s]) @ fields_scan [] 0 rest"
proof (induction s arbitrary: cur)
  case Nil
  show ?case by simp
next
  case (Cons c cs)
  from Cons.prems have w: "space_width (c # cs @ CHR '' '' # rest) = 0"
    by (simp add: space_width_extend)
  from Cons.prems have "no_space cs" by simp
  from Cons.IH [OF this, of "cur @ [c]"] w show ?case by simp
qed

lemma strings_Fields_mount_line:
  assumes "plain_mount m"
  shows "strings_Fields (mount_line m) =
    [m_dev m, m_point m, m_type m, m_opts m, ''0'', ''0'']"
proof -
  have tail: "fields_scan [] 0 ''0 0'' = [''0'', ''0'']"
    by (simp add: ascii_space_def space2_def space3_def)
  from assms have p: "no_space (m_dev m)" "no_space (m_point m)" "no_space (m_type m)"
    "no_space (m_opts m)" "m_dev m \<noteq> []" "m_point m \<noteq> []" "m_type m \<noteq> []" "m_opts m \<noteq> []"
    by (simp_all add: plain_mount_def plain_field_def)
  show ?thesis
    unfolding strings_Fields_def mount_line_def
    using p tail by (simp add: fields_scan_field)
qed

lemma line_mount_point_mount_line:
  "plain_mount m \<Longrightarrow> line_mount_point (mount_line m) = Some (m_point m)"
  by (simp add: line_mount_point_def strings_Fields_mount_line)

lemma no_space_no_newline: "no_space s \<Longrightarrow> CHR 0x0A \<notin> set s"
proof (induction s)
  case Nil show ?case by simp
next
  case (Cons c cs)
  have "c \<noteq> CHR 0x0A"
  proof
    assume "c = CHR 0x0A"
    then have "space_width (c # cs) = 1"
      by (cases cs; cases "tl cs") (auto simp: ascii_space_def)
    with Cons.prems show False by simp
  qed
  with Cons show ?case by simp
qed

lemma mount_line_no_newline: "plain_mount m \<Longrightarrow> CHR 0x0A \<notin> set (mount_line m)"
  by (auto simp: mount_line_def plain_mount_def plain_field_def dest: no_space_no_newline)

lemma strings_Split_line:
  "sep \<notin> set l \<Longrightarrow> strings_Split sep (l @ sep # rest) = l # strings_Split sep rest"
  by (induction l) auto

lemma strings_Split_proc_mounts:
  "list_all plain_mount ms \<Longrightarrow>
   strings_Split CHR 0x0A (proc_mounts ms) = map mount_line ms @ [[]]"
proof (induction ms)
  case Nil show ?case by (simp add: proc_mounts_def)
next
  case (Cons m ms)
  then have "CHR 0x0A \<notin> set (mount_line m)" by (simp add: mount_line_no_newline)
  from strings_Split_line [OF this] Cons show ?case
    by (simp add: proc_mounts_def)
qed

lemma line_mount_point_empty: "line_mount_point [] = None"
  by (simp add: line_mount_point_def strings_Fields_def)

lemma map_filter_app:
  "List.map_filter f (xs @ ys) = List.map_filter f xs @ List.map_filter f ys"
  by (simp add: List.map_filter_def)

lemma table_mount_points_proc_mounts:
  "list_all plain_mount ms \<Longrightarrow> table_mount_points (proc_mounts ms) = map m_point ms"
proof -
  assume a: "list_all plain_mount ms"
  then have "List.map_filter line_mount_point (map mount_line ms) = map m_point ms"
    by (induction ms) (simp_all add: List.map_filter_simps line_mount_point_mount_line)
  with a show ?thesis
    by (simp add: table_mount_points_def strings_Split_proc_mounts map_filter_app
        List.map_filter_simps line_mount_point_empty)
qed


lemma remove_first_mset:
  "list_ex P xs \<Longrightarrow> \<exists>x. P x \<and> add_mset x (mset (remove_first P xs)) = mset xs"
proof (induction xs)
  case Nil then show ?case by simp
next
  case (Cons a xs)
  show ?case
  proof (cases "P a")
    case True
    then show ?thesis by auto
  next
    case False
    with Cons.prems have "list_ex P xs" by simp
    from Cons.IH [OF this] obtain x where "P x" "add_mset x (mset (remove_first P xs)) = mset xs"
      by blast
    with False show ?thesis by (intro exI [of _ x]) auto
  qed
qed

lemma remove_first_subset: "set (remove_first P xs) \<subseteq> set xs"
  by (induction xs) auto

lemma detach_points:
  assumes "list_ex (\<lambda>m. m_point m = mp) ms"
  shows "add_mset mp (mset (map m_point (detach mp ms))) = mset (map m_point ms)"
proof -
  from assms have "list_ex (\<lambda>m. m_point m = mp) (rev ms)"
    by (simp add: list_ex_iff)
  from remove_first_mset [OF this] obtain x where x: "m_point x = mp"
    and e: "add_mset x (mset (remove_first (\<lambda>m. m_point m = mp) (rev ms))) = mset (rev ms)"
    by blast
  have "mset (map m_point (rev ms)) =
      image_mset m_point (add_mset x (mset (remove_first (\<lambda>m. m_point m = mp) (rev ms))))"
    using e by simp
  then show ?thesis using x by (simp add: detach_def)
qed

lemma detach_subset: "set (detach mp ms) \<subseteq> set ms"
  using remove_first_subset [of _ "rev ms"] by (auto simp: detach_def)

lemma exec_umount_ok:
  "exec_umount h mp = (h1, True) \<Longrightarrow>
   add_mset mp (mset (map m_point (mounts h1))) = mset (map m_point (mounts h)) \<and>
   set (mounts h1) \<subseteq> set (mounts h) \<and>
   proc_mounts_readable h1 = proc_mounts_readable h"
  using detach_subset [of mp "mounts h"] detach_points [of mp "mounts h"]
  by (auto simp: exec_umount_def umount_fails_def split: if_splits)

lemma run_umounts_all_ok:
  "run_umounts h ts = (h1, log) \<Longrightarrow> list_all snd log \<Longrightarrow>
   mset ts + mset (map m_point (mounts h1)) = mset (map m_point (mounts h)) \<and>
   set (mounts h1) \<subseteq> set (mounts h) \<and>
   proc_mounts_readable h1 = proc_mounts_readable h"
proof (induction ts arbitrary: h h1 log)
  case Nil
  then show ?case by simp
next
  case (Cons t ts)
  obtain h2 ok where e: "exec_umount h t = (h2, ok)" by (cases "exec_umount h t")
  obtain h3 log3 where r: "run_umounts h2 ts = (h3, log3)" by (cases "run_umounts h2 ts")
  from Cons.prems(1) e r have eq: "h1 = h3" "log = (t, ok) # log3" by simp_all
  with Cons.prems(2) have ok: "ok" and all3: "list_all snd log3" by simp_all
  from exec_umount_ok [of h t h2] e ok
  have s1: "add_mset t (mset (map m_point (mounts h2))) = mset (map m_point (mounts h))"
    "set (mounts h2) \<subseteq> set (mounts h)" "proc_mounts_readable h2 = proc_mounts_readable h"
    by simp_all
  from Cons.IH [OF r all3]
  have s2: "mset ts + mset (map m_point (mounts h3)) = mset (map m_point (mounts h2))"
    "set (mounts h3) \<subseteq> set (mounts h2)" "proc_mounts_readable h3 = proc_mounts_readable h2"
    by simp_all
  have "mset (t # ts) + mset (map m_point (mounts h3)) =
      add_mset t (mset ts + mset (map m_point (mounts h3)))" by simp
  also have "\<dots> = mset (map m_point (mounts h))" using s1(1) s2(1) by simp
  finally show ?case using s1 s2 eq by auto
qed

lemma unmount_targets_table:
  "list_all plain_mount ms \<Longrightarrow>
   mset (unmount_targets r (proc_mounts ms)) =
   filter_mset (descendant (Path r)) (mset (map m_point ms))"
  by (simp add: unmount_targets_mset table_mount_points_proc_mounts)


lemma Unmount_all_ok_clears:
  assumes wf: "list_all plain_mount (mounts h)"
    and u: "Unmount r h = (h1, log)" and ok: "list_all snd log"
  shows "list_all plain_mount (mounts h1) \<and>
    \<not> list_ex (\<lambda>m. descendant (Path r) (m_point m)) (mounts h1) \<or>
    (h1 = h \<and> \<not> proc_mounts_readable h)"
proof (cases "proc_mounts_readable h")
  case False
  with u show ?thesis by (simp add: Unmount_def os_ReadFile_proc_mounts_def)
next
  case True
  let ?T = "unmount_targets r (proc_mounts (mounts h))"
  let ?D = "descendant (Path r)"
  from True u have run: "run_umounts h ?T = (h1, log)"
    by (simp add: Unmount_def os_ReadFile_proc_mounts_def)
  from run_umounts_all_ok [OF run ok]
  have m: "mset ?T + mset (map m_point (mounts h1)) = mset (map m_point (mounts h))"
    and sub: "set (mounts h1) \<subseteq> set (mounts h)" by simp_all
  from wf sub have wf1: "list_all plain_mount (mounts h1)"
    by (auto simp: list_all_iff)
  have T: "mset ?T = filter_mset ?D (mset (map m_point (mounts h)))"
    by (rule unmount_targets_table [OF wf])
  have "filter_mset ?D (mset ?T) + filter_mset ?D (mset (map m_point (mounts h1))) =
      filter_mset ?D (mset (map m_point (mounts h)))"
    using m by (metis filter_union_mset)
  moreover have "filter_mset ?D (mset ?T) = filter_mset ?D (mset (map m_point (mounts h)))"
    unfolding T by (simp add: filter_filter_mset)
  ultimately have "filter_mset ?D (mset (map m_point (mounts h1))) = {#}"
    by simp
  then have "\<not> list_ex (\<lambda>m. ?D (m_point m)) (mounts h1)"
    by (auto simp: list_ex_iff)
  with wf1 show ?thesis by simp
qed






section \<open>Properties of \<^verbatim>\<open>Unmount\<close> and \<^verbatim>\<open>CleanupRootfs\<close>\<close>




text \<open>
  C10. \<^verbatim>\<open>CleanupRootfs\<close> returns \<^verbatim>\<open>nil\<close> for every root file system on every host: the
  errors of removing the package cache, of reading the \<^verbatim>\<open>dev\<close> directory and of
  removing its entries are dropped, none reaches the caller.
\<close>

theorem CleanupRootfs_returns_nil: "snd (CleanupRootfs r h) = None"
  by (simp add: CleanupRootfs_def Let_def split: prod.splits)

text \<open>
  On \<open>bare_host\<close> the removal of the package cache fails and so does the reading of the
  \<^verbatim>\<open>dev\<close> directory; on \<open>locked_dev_host\<close> the removal of an entry of \<^verbatim>\<open>dev\<close> fails, and
  the entry stays. \<^verbatim>\<open>CleanupRootfs\<close> returns \<^verbatim>\<open>nil\<close> on both.
\<close>

theorem CleanupRootfs_returns_nil_witness:
  "snd (os_RemoveAll bare_host ''/tmp/distrorun-demo/rootfs/var/cache/apk'') \<noteq> None \<and>
   snd (os_ReadDir bare_host ''/tmp/distrorun-demo/rootfs/dev'') \<noteq> None \<and>
   snd (CleanupRootfs demo_rootfs bare_host) = None \<and>
   snd (os_RemoveAll locked_dev_host ''/tmp/distrorun-demo/rootfs/dev/console'') \<noteq> None \<and>
   files (fst (CleanupRootfs demo_rootfs locked_dev_host)) = files locked_dev_host \<and>
   snd (CleanupRootfs demo_rootfs locked_dev_host) = None"
proof (intro conjI)
  show "snd (os_RemoveAll bare_host ''/tmp/distrorun-demo/rootfs/var/cache/apk'') \<noteq> None"
    by code_simp
  show "snd (os_ReadDir bare_host ''/tmp/distrorun-demo/rootfs/dev'') \<noteq> None"
    by code_simp
  show "snd (CleanupRootfs demo_rootfs bare_host) = None"
    by (rule CleanupRootfs_returns_nil)
  show "snd (os_RemoveAll locked_dev_host ''/tmp/distrorun-demo/rootfs/dev/console'') \<noteq> None"
    by code_simp
  show "files (fst (CleanupRootfs demo_rootfs locked_dev_host)) = files locked_dev_host"
    by code_simp
  show "snd (CleanupRootfs demo_rootfs locked_dev_host) = None"
    by (rule CleanupRootfs_returns_nil)
qed

text \<open>
  C1 fails on the code where a \<^verbatim>\<open>umount\<close> fails. \<^verbatim>\<open>Unmount\<close> only warns about the
  failure, and \<^verbatim>\<open>runBuild\<close> goes on to \<^verbatim>\<open>CleanupRootfs\<close>, which has no check of its own:
  on \<open>busy_host\<close> the bind mount of \<^verbatim>\<open>/dev\<close> at \<open>rootfs/dev\<close> is still active after
  \<^verbatim>\<open>Unmount\<close> has returned, and \<^verbatim>\<open>CleanupRootfs\<close> removes the host's \<^verbatim>\<open>/dev/null\<close> and
  \<^verbatim>\<open>/dev/sda\<close> through it. The pipeline ends normally.
\<close>

theorem runBuild_removes_host_devices_when_umount_fails:
  "''/dev/null'' \<in> set (files busy_host) \<and>
   snd (Unmount demo_rootfs busy_host) =
     [(''/tmp/distrorun-demo/rootfs/sys'', True), (''/tmp/distrorun-demo/rootfs/proc'', True),
      (''/tmp/distrorun-demo/rootfs/dev'', False)] \<and>
   map m_point (mounts (fst (Unmount demo_rootfs busy_host))) =
     [''/dev'', ''/tmp'', ''/tmp/distrorun-demo/rootfs/dev''] \<and>
   files (fst (CleanupRootfs demo_rootfs (fst (Unmount demo_rootfs busy_host)))) =
     [''/dev'', ''/sys'', ''/sys/kernel'', ''/tmp/distrorun-demo'',
      ''/tmp/distrorun-demo/rootfs'', ''/tmp/distrorun-demo/rootfs/dev'',
      ''/tmp/distrorun-demo/rootfs/etc''] \<and>
   ''/dev/null'' \<notin> set (files (fst (runBuild demo_env busy_host))) \<and>
   snd (runBuild demo_env busy_host) = Return"
  by code_simp

section \<open>\<^verbatim>\<open>CleanupRootfs\<close> after a successful \<^verbatim>\<open>Unmount\<close>\<close>

lemma covering_result:
  "covering ms p best = Some m \<Longrightarrow> best = Some m \<or> (m \<in> set ms \<and> at_or_below (m_point m) p)"
  by (induction ms arbitrary: best) (auto split: if_splits)

lemma descendant_trans: "descendant a b \<Longrightarrow> at_or_below b c \<Longrightarrow> descendant a c"
  by (auto simp: descendant_def at_or_below_def prefix_def)

lemma common_ancestors:
  assumes "descendant a p" and "descendant r p"
  shows "at_or_below a r \<or> descendant r a"
proof -
  from assms have "prefix (a @ ''/'') p" "prefix (r @ ''/'') p"
    by (simp_all add: descendant_def)
  then have "prefix (a @ ''/'') (r @ ''/'') \<or> prefix (r @ ''/'') (a @ ''/'')"
    by (rule prefix_same_cases)
  then show ?thesis
  proof
    assume "prefix (a @ ''/'') (r @ ''/'')"
    then have "a @ ''/'' = r @ ''/'' \<or> prefix (a @ ''/'') r"
      by (simp add: prefix_snoc)
    then show ?thesis by (auto simp: at_or_below_def descendant_def)
  next
    assume "prefix (r @ ''/'') (a @ ''/'')"
    then have "r @ ''/'' = a @ ''/'' \<or> prefix (r @ ''/'') a"
      by (simp add: prefix_snoc)
    then show ?thesis by (auto simp: at_or_below_def descendant_def)
  qed
qed

lemma resolve_below_root:
  assumes below: "\<forall>m \<in> set ms. \<not> descendant r (m_point m)"
    and ident: "\<forall>m \<in> set ms. at_or_below (m_point m) r \<longrightarrow> m_src m = m_point m"
    and p: "descendant r p"
  shows "resolve ms p = p"
proof (cases "covering ms p None")
  case None
  then show ?thesis by (simp add: resolve_def)
next
  case (Some m)
  from covering_result [OF Some] have m: "m \<in> set ms" and u: "at_or_below (m_point m) p"
    by simp_all
  from below m have nb: "\<not> descendant r (m_point m)" by blast
  have ur: "at_or_below (m_point m) r"
  proof (cases "p = m_point m")
    case True
    with p nb show ?thesis by simp
  next
    case False
    with u have "descendant (m_point m) p" by (simp add: at_or_below_def)
    from common_ancestors [OF this p] nb show ?thesis by blast
  qed
  with ident m have src: "m_src m = m_point m" by blast
  from u have "prefix (m_point m) p"
    by (auto simp: at_or_below_def descendant_def prefix_def)
  then have "m_point m @ drop (length (m_point m)) p = p"
    by (auto simp: prefix_def)
  with Some src show ?thesis by (simp add: resolve_def)
qed

lemma os_RemoveAll_below:
  assumes "resolve (mounts h) p = p"
  shows "mounts (fst (os_RemoveAll h p)) = mounts h"
    and "set (files (fst (os_RemoveAll h p))) \<subseteq> set (files h)"
    and "x \<in> set (files h) \<Longrightarrow> x \<notin> set (files (fst (os_RemoveAll h p))) \<Longrightarrow> at_or_below p x"
  using assms by (auto simp: os_RemoveAll_def Let_def)

lemma remove_entries_below:
  assumes below: "\<forall>m \<in> set (mounts h). \<not> descendant r (m_point m)"
    and ident: "\<forall>m \<in> set (mounts h). at_or_below (m_point m) r \<longrightarrow> m_src m = m_point m"
    and dir: "descendant r (devPath @ ''/'')"
  shows "set (files (remove_entries h devPath es)) \<subseteq> set (files h) \<and>
    (\<forall>x \<in> set (files h). x \<notin> set (files (remove_entries h devPath es)) \<longrightarrow> descendant r x)"
  using below ident
proof (induction es arbitrary: h)
  case Nil
  then show ?case by simp
next
  case (Cons e es)
  let ?p = "filepath_Join [devPath, e]"
  let ?h1 = "fst (os_RemoveAll h ?p)"
  from dir have "prefix (r @ ''/'') ((devPath @ ''/'') @ e)"
    unfolding descendant_def by (rule prefix_prefix)
  then have dp: "descendant r ?p"
    by (simp add: descendant_def)
  from resolve_below_root [OF Cons.prems(1) Cons.prems(2) dp]
  have res: "resolve (mounts h) ?p = ?p" .
  note ra = os_RemoveAll_below [OF res]
  from ra(1) Cons.prems have b1: "\<forall>m \<in> set (mounts ?h1). \<not> descendant r (m_point m)"
    and i1: "\<forall>m \<in> set (mounts ?h1). at_or_below (m_point m) r \<longrightarrow> m_src m = m_point m"
    by simp_all
  from Cons.IH [OF b1 i1]
  have ih: "set (files (remove_entries ?h1 devPath es)) \<subseteq> set (files ?h1)"
    "\<forall>x \<in> set (files ?h1). x \<notin> set (files (remove_entries ?h1 devPath es)) \<longrightarrow> descendant r x"
    by simp_all
  have step: "remove_entries h devPath (e # es) = remove_entries ?h1 devPath es"
    by (simp add: split_def)
  have "\<forall>x \<in> set (files h). x \<notin> set (files (remove_entries ?h1 devPath es)) \<longrightarrow> descendant r x"
  proof (intro ballI impI)
    fix x assume x: "x \<in> set (files h)" and gone: "x \<notin> set (files (remove_entries ?h1 devPath es))"
    show "descendant r x"
    proof (cases "x \<in> set (files ?h1)")
      case True
      with ih(2) gone show ?thesis by blast
    next
      case False
      from ra(3) [OF x False] have "at_or_below ?p x" .
      with dp show ?thesis by (rule descendant_trans)
    qed
  qed
  with ih(1) ra(2) step show ?case by auto
qed

lemma CleanupRootfs_below:
  assumes below: "\<forall>m \<in> set (mounts h). \<not> descendant (Path r) (m_point m)"
    and ident: "\<forall>m \<in> set (mounts h). at_or_below (m_point m) (Path r) \<longrightarrow> m_src m = m_point m"
  shows "set (files (fst (CleanupRootfs r h))) \<subseteq> set (files h) \<and>
    (\<forall>x \<in> set (files h). x \<notin> set (files (fst (CleanupRootfs r h))) \<longrightarrow>
       descendant (Path r) x)"
proof -
  let ?c = "filepath_Join [Path r, ''var'', ''cache'', ''apk'']"
  let ?d = "filepath_Join [Path r, ''dev'']"
  let ?h1 = "fst (os_RemoveAll h ?c)"
  let ?es = "fst (os_ReadDir ?h1 ?d)"
  have dc: "descendant (Path r) ?c"
    by (simp add: descendant_def)
  have dd: "descendant (Path r) (?d @ ''/'')"
    by (simp add: descendant_def)
  from resolve_below_root [OF below ident dc] have res: "resolve (mounts h) ?c = ?c" .
  note ra = os_RemoveAll_below [OF res]
  from ra(1) below ident have b1: "\<forall>m \<in> set (mounts ?h1). \<not> descendant (Path r) (m_point m)"
    and i1: "\<forall>m \<in> set (mounts ?h1). at_or_below (m_point m) (Path r) \<longrightarrow> m_src m = m_point m"
    by simp_all
  from remove_entries_below [OF b1 i1 dd, of ?es]
  have re: "set (files (remove_entries ?h1 ?d ?es)) \<subseteq> set (files ?h1)"
    "\<forall>x \<in> set (files ?h1). x \<notin> set (files (remove_entries ?h1 ?d ?es)) \<longrightarrow>
       descendant (Path r) x"
    by simp_all
  have eq: "fst (CleanupRootfs r h) = remove_entries ?h1 ?d ?es"
    by (simp add: CleanupRootfs_def Let_def split_def)
  have "\<forall>x \<in> set (files h). x \<notin> set (files (remove_entries ?h1 ?d ?es)) \<longrightarrow>
       descendant (Path r) x"
  proof (intro ballI impI)
    fix x assume x: "x \<in> set (files h)" and gone: "x \<notin> set (files (remove_entries ?h1 ?d ?es))"
    show "descendant (Path r) x"
    proof (cases "x \<in> set (files ?h1)")
      case True
      with re(2) gone show ?thesis by blast
    next
      case False
      from ra(3) [OF x False] have "at_or_below ?c x" .
      with dc show ?thesis by (rule descendant_trans)
    qed
  qed
  with re(1) ra(2) eq show ?thesis by auto
qed


lemma exec_umount_files: "files (fst (exec_umount h mp)) = files h"
  by (simp add: exec_umount_def)

lemma run_umounts_files: "files (fst (run_umounts h ts)) = files h"
proof (induction ts arbitrary: h)
  case Nil
  show ?case by simp
next
  case (Cons t ts)
  have "files (fst (run_umounts h (t # ts))) = files (fst (run_umounts (fst (exec_umount h t)) ts))"
    by (simp add: split_def Let_def)
  with Cons [of "fst (exec_umount h t)"] show ?case
    by (simp add: exec_umount_files)
qed

lemma Unmount_files: "files (fst (Unmount r h)) = files h"
  by (simp add: Unmount_def run_umounts_files split: option.splits)

text \<open>
  What holds of C1 on the code. When \<^verbatim>\<open>/proc/mounts\<close> can be read and every \<^verbatim>\<open>umount\<close>
  of \<^verbatim>\<open>Unmount\<close> succeeds, the \<^verbatim>\<open>CleanupRootfs\<close> that follows removes nothing but paths
  strictly below the root path, and creates nothing: no host path outside the root file
  system is touched. (The root path itself is taken not to lie inside a bind mount: a
  mount at or above it shows its own files.)
\<close>

theorem CleanupRootfs_after_successful_Unmount:
  "list_all plain_mount (mounts h) \<and> proc_mounts_readable h \<and>
   list_all snd (snd (Unmount r h)) \<and>
   (\<forall>m \<in> set (mounts h). at_or_below (m_point m) (Path r) \<longrightarrow> m_src m = m_point m) \<longrightarrow>
   set (files (fst (CleanupRootfs r (fst (Unmount r h))))) \<subseteq> set (files h) \<and>
   (\<forall>x \<in> set (files h).
      x \<notin> set (files (fst (CleanupRootfs r (fst (Unmount r h))))) \<longrightarrow> descendant (Path r) x)"
proof (intro impI)
  assume a: "list_all plain_mount (mounts h) \<and> proc_mounts_readable h \<and>
   list_all snd (snd (Unmount r h)) \<and>
   (\<forall>m \<in> set (mounts h). at_or_below (m_point m) (Path r) \<longrightarrow> m_src m = m_point m)"
  obtain h1 log where u: "Unmount r h = (h1, log)" by (cases "Unmount r h")
  from a u have wf: "list_all plain_mount (mounts h)" and rd: "proc_mounts_readable h"
    and ok: "list_all snd log"
    and ident: "\<forall>m \<in> set (mounts h). at_or_below (m_point m) (Path r) \<longrightarrow> m_src m = m_point m"
    by simp_all
  from Unmount_all_ok_clears [OF wf u ok] rd
  have "\<not> list_ex (\<lambda>m. descendant (Path r) (m_point m)) (mounts h1)"
    by blast
  then have below: "\<forall>m \<in> set (mounts h1). \<not> descendant (Path r) (m_point m)"
    by (simp add: list_ex_iff)
  from u rd have "run_umounts h (unmount_targets r (proc_mounts (mounts h))) = (h1, log)"
    by (simp add: Unmount_def os_ReadFile_proc_mounts_def)
  from run_umounts_all_ok [OF this ok] have "set (mounts h1) \<subseteq> set (mounts h)"
    by simp
  with ident have ident1:
    "\<forall>m \<in> set (mounts h1). at_or_below (m_point m) (Path r) \<longrightarrow> m_src m = m_point m"
    by blast
  from Unmount_files [of r h] u have f: "files h1 = files h" by simp
  from CleanupRootfs_below [OF below ident1] f u
  show "set (files (fst (CleanupRootfs r (fst (Unmount r h))))) \<subseteq> set (files h) \<and>
   (\<forall>x \<in> set (files h).
      x \<notin> set (files (fst (CleanupRootfs r (fst (Unmount r h))))) \<longrightarrow> descendant (Path r) x)"
    by simp
qed

text \<open>
  On \<open>demo_host\<close>, where every \<^verbatim>\<open>umount\<close> succeeds, the host's \<^verbatim>\<open>/dev/null\<close> is still there
  after \<^verbatim>\<open>Unmount\<close> and \<^verbatim>\<open>CleanupRootfs\<close>; the package cache is gone.
\<close>

theorem CleanupRootfs_after_successful_Unmount_witness:
  "list_all plain_mount (mounts demo_host) \<and> proc_mounts_readable demo_host \<and>
   list_all snd (snd (Unmount demo_rootfs demo_host)) \<and>
   ''/dev/null'' \<in> set (files (fst (CleanupRootfs demo_rootfs (fst (Unmount demo_rootfs demo_host))))) \<and>
   ''/tmp/distrorun-demo/rootfs/var/cache/apk/APKINDEX.tar.gz''
     \<notin> set (files (fst (CleanupRootfs demo_rootfs (fst (Unmount demo_rootfs demo_host)))))"
proof -
  have wf: "list_all plain_mount (mounts demo_host)"
    by code_simp
  have rd: "proc_mounts_readable demo_host"
    by (simp add: demo_host_def)
  have ok: "list_all snd (snd (Unmount demo_rootfs demo_host))"
    by code_simp
  have ident: "\<forall>m \<in> set (mounts demo_host).
      at_or_below (m_point m) (Path demo_rootfs) \<longrightarrow> m_src m = m_point m"
    by (simp add: demo_host_def demo_mounts_def at_or_below_def descendant_def demo_rootfs_def)
  have there: "''/dev/null'' \<in> set (files demo_host)"
    by (simp add: demo_host_def demo_files_def)
  have outside: "\<not> descendant (Path demo_rootfs) ''/dev/null''"
    by (simp add: descendant_def demo_rootfs_def)
  from CleanupRootfs_after_successful_Unmount [of demo_host demo_rootfs] wf rd ok ident
  have "\<forall>x \<in> set (files demo_host).
      x \<notin> set (files (fst (CleanupRootfs demo_rootfs (fst (Unmount demo_rootfs demo_host))))) \<longrightarrow>
      descendant (Path demo_rootfs) x"
    by blast
  with there outside
  have kept: "''/dev/null'' \<in>
      set (files (fst (CleanupRootfs demo_rootfs (fst (Unmount demo_rootfs demo_host)))))"
    by blast
  have gone: "''/tmp/distrorun-demo/rootfs/var/cache/apk/APKINDEX.tar.gz''
     \<notin> set (files (fst (CleanupRootfs demo_rootfs (fst (Unmount demo_rootfs demo_host)))))"
    by code_simp
  from wf rd ok kept gone show ?thesis by blast
qed

section \<open>Properties of the artifact discovery\<close>

lemma find_minirootfs_none:
  "\<forall>rel \<in> set rels. Flavor rel \<noteq> ''alpine-minirootfs'' \<Longrightarrow> find_minirootfs rels = []"
  by (induction rels) auto

lemma find_minirootfs_first:
  "List.find (\<lambda>rel. Flavor rel = ''alpine-minirootfs'') rels = Some rel \<Longrightarrow>
   find_minirootfs rels = File rel"
  by (induction rels) (auto split: if_splits)

text \<open>
  C7. Let \<open>base\<close> be \<^verbatim>\<open>https://dl-cdn.alpinelinux.org/alpine/latest-stable/releases/\<close>
  followed by the architecture. The index is requested from \<open>base\<close> and
  \<^verbatim>\<open>/latest-releases.yaml\<close>. The operation fails, after the index request alone, when the
  index is unreachable, when the index request returns a status other than 200, and when
  the index has no record of flavor \<open>alpine-minirootfs\<close>. With the index fetched
  (status 200, body read and decoded), the first record of that flavor is selected and
  the second and last request goes to \<open>base\<close>, a slash and the file the record names.
  What is written to the destination is the body of the response to that request: the
  operation fails when the request gets no response or a status other than 200, when the
  destination cannot be created and when the body cannot be read to its end, and
  otherwise the destination holds the body.
\<close>

theorem downloadMinirootfs_selects_minirootfs:
  "\<forall>base. base = ''https://dl-cdn.alpinelinux.org/alpine/latest-stable/releases/'' @ arch r \<longrightarrow>
   (http_Get env (base @ ''/latest-releases.yaml'') = None \<longrightarrow>
      downloadMinirootfs r env dest = ([base @ ''/latest-releases.yaml''], Inl FetchingIndex)) \<and>
   (\<forall>resp. http_Get env (base @ ''/latest-releases.yaml'') = Some resp \<and>
        StatusCode resp \<noteq> 200 \<longrightarrow>
      downloadMinirootfs r env dest =
        ([base @ ''/latest-releases.yaml''], Inl (FetchingIndexHTTP (StatusCode resp)))) \<and>
   (\<forall>resp body releases.
        http_Get env (base @ ''/latest-releases.yaml'') = Some resp \<and>
        StatusCode resp = 200 \<and> Body resp = Some body \<and>
        yaml_Unmarshal env body = Some releases \<longrightarrow>
      ((\<forall>rel \<in> set releases. Flavor rel \<noteq> ''alpine-minirootfs'') \<longrightarrow>
         downloadMinirootfs r env dest = ([base @ ''/latest-releases.yaml''], Inl EntryNotFound)) \<and>
      (\<forall>rel. List.find (\<lambda>rel. Flavor rel = ''alpine-minirootfs'') releases = Some rel \<and>
           File rel \<noteq> [] \<longrightarrow>
         fst (downloadMinirootfs r env dest) =
           [base @ ''/latest-releases.yaml'', base @ ''/'' @ File rel] \<and>
         (http_Get env (base @ ''/'' @ File rel) = None \<longrightarrow>
            snd (downloadMinirootfs r env dest) = Inl Downloading) \<and>
         (\<forall>resp2. http_Get env (base @ ''/'' @ File rel) = Some resp2 \<longrightarrow>
            (StatusCode resp2 \<noteq> 200 \<longrightarrow>
               snd (downloadMinirootfs r env dest) = Inl (DownloadingHTTP (StatusCode resp2))) \<and>
            (StatusCode resp2 = 200 \<and> \<not> os_Create env dest \<longrightarrow>
               snd (downloadMinirootfs r env dest) = Inl CreatingTarball) \<and>
            (StatusCode resp2 = 200 \<and> os_Create env dest \<and> Body resp2 = None \<longrightarrow>
               snd (downloadMinirootfs r env dest) = Inl WritingTarball) \<and>
            (\<forall>data. StatusCode resp2 = 200 \<and> os_Create env dest \<and> Body resp2 = Some data \<longrightarrow>
               snd (downloadMinirootfs r env dest) = Inr data))))"
proof (intro allI impI)
  fix base
  assume base: "base = ''https://dl-cdn.alpinelinux.org/alpine/latest-stable/releases/'' @ arch r"
  then have b: "baseURL r = base" by (simp add: baseURL_def)
  have unreachable: "downloadMinirootfs r env dest =
      ([base @ ''/latest-releases.yaml''], Inl FetchingIndex)"
    if "http_Get env (base @ ''/latest-releases.yaml'') = None"
    using that by (simp add: downloadMinirootfs_def b)
  have status: "downloadMinirootfs r env dest =
      ([base @ ''/latest-releases.yaml''], Inl (FetchingIndexHTTP (StatusCode resp)))"
    if "http_Get env (base @ ''/latest-releases.yaml'') = Some resp \<and> StatusCode resp \<noteq> 200"
    for resp
    using that by (simp add: downloadMinirootfs_def b)
  have absent: "downloadMinirootfs r env dest =
      ([base @ ''/latest-releases.yaml''], Inl EntryNotFound)"
    if "http_Get env (base @ ''/latest-releases.yaml'') = Some resp \<and>
        StatusCode resp = 200 \<and> Body resp = Some body \<and>
        yaml_Unmarshal env body = Some releases"
      and "\<forall>rel \<in> set releases. Flavor rel \<noteq> ''alpine-minirootfs''"
    for resp body releases
    using that find_minirootfs_none [of releases]
    by (simp add: downloadMinirootfs_def b)
  have found: "downloadMinirootfs r env dest =
        ([base @ ''/latest-releases.yaml'', base @ ''/'' @ File rel],
         fetch_tarball env (base @ ''/'' @ File rel) dest)"
    if "http_Get env (base @ ''/latest-releases.yaml'') = Some resp \<and>
        StatusCode resp = 200 \<and> Body resp = Some body \<and>
        yaml_Unmarshal env body = Some releases"
      and "List.find (\<lambda>rel. Flavor rel = ''alpine-minirootfs'') releases = Some rel \<and>
        File rel \<noteq> []"
    for resp body releases rel
    using that find_minirootfs_first [of releases rel]
    by (simp add: downloadMinirootfs_def Let_def b)
  show "(http_Get env (base @ ''/latest-releases.yaml'') = None \<longrightarrow>
      downloadMinirootfs r env dest = ([base @ ''/latest-releases.yaml''], Inl FetchingIndex)) \<and>
   (\<forall>resp. http_Get env (base @ ''/latest-releases.yaml'') = Some resp \<and>
        StatusCode resp \<noteq> 200 \<longrightarrow>
      downloadMinirootfs r env dest =
        ([base @ ''/latest-releases.yaml''], Inl (FetchingIndexHTTP (StatusCode resp)))) \<and>
   (\<forall>resp body releases.
        http_Get env (base @ ''/latest-releases.yaml'') = Some resp \<and>
        StatusCode resp = 200 \<and> Body resp = Some body \<and>
        yaml_Unmarshal env body = Some releases \<longrightarrow>
      ((\<forall>rel \<in> set releases. Flavor rel \<noteq> ''alpine-minirootfs'') \<longrightarrow>
         downloadMinirootfs r env dest = ([base @ ''/latest-releases.yaml''], Inl EntryNotFound)) \<and>
      (\<forall>rel. List.find (\<lambda>rel. Flavor rel = ''alpine-minirootfs'') releases = Some rel \<and>
           File rel \<noteq> [] \<longrightarrow>
         fst (downloadMinirootfs r env dest) =
           [base @ ''/latest-releases.yaml'', base @ ''/'' @ File rel] \<and>
         (http_Get env (base @ ''/'' @ File rel) = None \<longrightarrow>
            snd (downloadMinirootfs r env dest) = Inl Downloading) \<and>
         (\<forall>resp2. http_Get env (base @ ''/'' @ File rel) = Some resp2 \<longrightarrow>
            (StatusCode resp2 \<noteq> 200 \<longrightarrow>
               snd (downloadMinirootfs r env dest) = Inl (DownloadingHTTP (StatusCode resp2))) \<and>
            (StatusCode resp2 = 200 \<and> \<not> os_Create env dest \<longrightarrow>
               snd (downloadMinirootfs r env dest) = Inl CreatingTarball) \<and>
            (StatusCode resp2 = 200 \<and> os_Create env dest \<and> Body resp2 = None \<longrightarrow>
               snd (downloadMinirootfs r env dest) = Inl WritingTarball) \<and>
            (\<forall>data. StatusCode resp2 = 200 \<and> os_Create env dest \<and> Body resp2 = Some data \<longrightarrow>
               snd (downloadMinirootfs r env dest) = Inr data))))"
  proof (intro conjI allI impI)
    show "downloadMinirootfs r env dest = ([base @ ''/latest-releases.yaml''], Inl FetchingIndex)"
      if "http_Get env (base @ ''/latest-releases.yaml'') = None"
      using that by (rule unreachable)
    show "downloadMinirootfs r env dest =
        ([base @ ''/latest-releases.yaml''], Inl (FetchingIndexHTTP (StatusCode resp)))"
      if "http_Get env (base @ ''/latest-releases.yaml'') = Some resp \<and> StatusCode resp \<noteq> 200"
      for resp using that by (rule status)
  next
    fix resp body releases
    assume idx: "http_Get env (base @ ''/latest-releases.yaml'') = Some resp \<and>
        StatusCode resp = 200 \<and> Body resp = Some body \<and>
        yaml_Unmarshal env body = Some releases"
    show "downloadMinirootfs r env dest = ([base @ ''/latest-releases.yaml''], Inl EntryNotFound)"
      if "\<forall>rel \<in> set releases. Flavor rel \<noteq> ''alpine-minirootfs''"
      using idx that by (rule absent)
    fix rel
    assume rel: "List.find (\<lambda>rel. Flavor rel = ''alpine-minirootfs'') releases = Some rel \<and>
           File rel \<noteq> []"
    note f = found [OF idx rel]
    show "fst (downloadMinirootfs r env dest) =
           [base @ ''/latest-releases.yaml'', base @ ''/'' @ File rel]"
      by (simp add: f)
    show "snd (downloadMinirootfs r env dest) = Inl Downloading"
      if "http_Get env (base @ ''/'' @ File rel) = None"
      using that by (simp add: f fetch_tarball_def)
    fix resp2
    assume g: "http_Get env (base @ ''/'' @ File rel) = Some resp2"
    show "snd (downloadMinirootfs r env dest) = Inl (DownloadingHTTP (StatusCode resp2))"
      if "StatusCode resp2 \<noteq> 200"
      using that g by (simp add: f fetch_tarball_def)
    show "snd (downloadMinirootfs r env dest) = Inl CreatingTarball"
      if "StatusCode resp2 = 200 \<and> \<not> os_Create env dest"
      using that g by (simp add: f fetch_tarball_def)
    show "snd (downloadMinirootfs r env dest) = Inl WritingTarball"
      if "StatusCode resp2 = 200 \<and> os_Create env dest \<and> Body resp2 = None"
      using that g by (simp add: f fetch_tarball_def)
    show "snd (downloadMinirootfs r env dest) = Inr data"
      if "StatusCode resp2 = 200 \<and> os_Create env dest \<and> Body resp2 = Some data"
      for data
      using that g by (simp add: f fetch_tarball_def)
  qed
qed

text \<open>
  The example of the specification: the index names \<open>minirootfs-3.19.tar.gz\<close>, and the
  tarball is downloaded from the base URL, a slash and that name. The three failures, on
  the networks that show them.
\<close>

theorem downloadMinirootfs_selects_minirootfs_witness:
  "downloadMinirootfs demo_rootfs demo_net ''/tmp/distrorun-demo/minirootfs.tar.gz'' =
     ([''https://dl-cdn.alpinelinux.org/alpine/latest-stable/releases/x86_64/latest-releases.yaml'',
       ''https://dl-cdn.alpinelinux.org/alpine/latest-stable/releases/x86_64/minirootfs-3.19.tar.gz''],
      Inr ''tarball'') \<and>
   snd (downloadMinirootfs demo_rootfs offline_net ''/tmp/distrorun-demo/minirootfs.tar.gz'') =
     Inl FetchingIndex \<and>
   snd (downloadMinirootfs demo_rootfs missing_net ''/tmp/distrorun-demo/minirootfs.tar.gz'') =
     Inl (FetchingIndexHTTP 404) \<and>
   snd (downloadMinirootfs demo_rootfs other_flavors_net ''/tmp/distrorun-demo/minirootfs.tar.gz'') =
     Inl EntryNotFound"
proof -
  let ?dest = "''/tmp/distrorun-demo/minirootfs.tar.gz''"
  let ?base = "''https://dl-cdn.alpinelinux.org/alpine/latest-stable/releases/x86_64''"
  let ?index = "''https://dl-cdn.alpinelinux.org/alpine/latest-stable/releases/x86_64/latest-releases.yaml''"
  let ?tar = "''https://dl-cdn.alpinelinux.org/alpine/latest-stable/releases/x86_64/minirootfs-3.19.tar.gz''"
  let ?rel = "\<lparr>Flavor = ''alpine-minirootfs'', File = ''minirootfs-3.19.tar.gz''\<rparr>"
  have base: "?base = ''https://dl-cdn.alpinelinux.org/alpine/latest-stable/releases/'' @ arch demo_rootfs"
    by (simp add: demo_rootfs_def)
  have index: "?base @ ''/latest-releases.yaml'' = ?index" by simp
  have tar: "?base @ ''/'' @ File ?rel = ?tar" by simp
  have get: "http_Get demo_net (?base @ ''/latest-releases.yaml'') =
      Some \<lparr>StatusCode = 200, Body = Some ''index''\<rparr>"
    by (simp add: demo_net_def)
  have yaml: "yaml_Unmarshal demo_net ''index'' = Some demo_index"
    by (simp add: demo_net_def)
  have found: "List.find (\<lambda>rel. Flavor rel = ''alpine-minirootfs'') demo_index = Some ?rel"
    by (simp add: demo_index_def)
  have get2: "http_Get demo_net (?base @ ''/'' @ File ?rel) =
      Some \<lparr>StatusCode = 200, Body = Some ''tarball''\<rparr>"
    by (simp add: demo_net_def)
  have create: "os_Create demo_net ?dest"
    by (simp add: demo_net_def)
  note inst = downloadMinirootfs_selects_minirootfs [of demo_rootfs demo_net ?dest,
      rule_format, OF base]
  from inst get yaml found
  have sel: "fst (downloadMinirootfs demo_rootfs demo_net ?dest) =
      [?base @ ''/latest-releases.yaml'', ?base @ ''/'' @ File ?rel]"
    by force
  from inst get yaml found get2 create
  have res: "snd (downloadMinirootfs demo_rootfs demo_net ?dest) = Inr ''tarball''"
    by force
  from sel res have r1: "downloadMinirootfs demo_rootfs demo_net ?dest =
     ([?index, ?tar], Inr ''tarball'')"
    by (simp add: prod_eq_iff)
  have "http_Get offline_net (?base @ ''/latest-releases.yaml'') = None"
    by (simp add: offline_net_def)
  with downloadMinirootfs_selects_minirootfs [of demo_rootfs offline_net ?dest, rule_format, OF base]
  have r2: "snd (downloadMinirootfs demo_rootfs offline_net ?dest) = Inl FetchingIndex"
    by simp
  have "http_Get missing_net (?base @ ''/latest-releases.yaml'') =
      Some \<lparr>StatusCode = 404, Body = Some []\<rparr>"
    by (simp add: missing_net_def)
  with downloadMinirootfs_selects_minirootfs [of demo_rootfs missing_net ?dest, rule_format, OF base]
  have r3: "snd (downloadMinirootfs demo_rootfs missing_net ?dest) = Inl (FetchingIndexHTTP 404)"
    by force
  have get4: "http_Get other_flavors_net (?base @ ''/latest-releases.yaml'') =
      Some \<lparr>StatusCode = 200, Body = Some ''index''\<rparr>"
    by (simp add: other_flavors_net_def demo_net_def)
  have yaml4: "yaml_Unmarshal other_flavors_net ''index'' =
      Some [\<lparr>Flavor = ''alpine-standard'', File = ''alpine-standard-3.19.iso''\<rparr>]"
    by (simp add: other_flavors_net_def)
  from downloadMinirootfs_selects_minirootfs [of demo_rootfs other_flavors_net ?dest,
      rule_format, OF base] get4 yaml4
  have r4: "snd (downloadMinirootfs demo_rootfs other_flavors_net ?dest) = Inl EntryNotFound"
    by force
  from r1 r2 r3 r4 show ?thesis by simp
qed

section \<open>Properties of the live-boot init script\<close>

declare wait_for_cdrom.simps [simp del]

lemma wait_for_cdrom_sleeps:
  "wait_for_cdrom env i = (steps, n) \<Longrightarrow>
   steps = replicate (n - i) Sleep1 \<and> i \<le> n \<and> (n \<le> 10 \<or> n = i) \<and>
   (sr0_present env n \<or> 10 \<le> n) \<and> (\<forall>t. i \<le> t \<and> t < n \<longrightarrow> \<not> sr0_present env t)"
proof (induction env i arbitrary: steps n rule: wait_for_cdrom.induct)
  case (1 env i)
  show ?case
  proof (cases "\<not> sr0_present env i \<and> i < 10")
    case True
    obtain steps' n' where r: "wait_for_cdrom env (i + 1) = (steps', n')"
      by (cases "wait_for_cdrom env (i + 1)")
    from "1.prems" True r have eq: "steps = Sleep1 # steps'" "n = n'"
      by (simp_all add: wait_for_cdrom.simps [of env i])
    from "1.IH" [OF True r]
    have ih: "steps' = replicate (n' - (i + 1)) Sleep1" "i + 1 \<le> n'" "n' \<le> 10 \<or> n' = i + 1"
      "sr0_present env n' \<or> 10 \<le> n'" "\<forall>t. i + 1 \<le> t \<and> t < n' \<longrightarrow> \<not> sr0_present env t"
      by simp_all
    have "replicate (n' - i) Sleep1 = Sleep1 # replicate (n' - (i + 1)) Sleep1"
      using ih(2) by (cases "n' - i") simp_all
    moreover have "\<forall>t. i \<le> t \<and> t < n' \<longrightarrow> \<not> sr0_present env t"
    proof (intro allI impI)
      fix t assume t: "i \<le> t \<and> t < n'"
      show "\<not> sr0_present env t"
      proof (cases "t = i")
        case True with \<open>\<not> sr0_present env i \<and> i < 10\<close> show ?thesis by simp
      next
        case False with t ih(5) show ?thesis by simp
      qed
    qed
    ultimately show ?thesis using eq ih True by auto
  next
    case False
    with "1.prems" have "steps = []" "n = i"
      by (simp_all add: wait_for_cdrom.simps [of env i])
    with False show ?thesis by auto
  qed
qed


lemmas customInit_parts = customInit_setup_def customInit_media_def customInit_overlay_def
  emergency_shell_def modules_def

lemma customInit_run_shape:
  obtains n where "n \<le> 10" "sr0_present env n \<or> n = 10"
    "\<forall>t<n. \<not> sr0_present env t"
    "customInit_run env = customInit_setup @ replicate n Sleep1 @
       (if \<not> sr0_present env n
        then emergency_shell ''ERROR: CD-ROM device /dev/sr0 not found''
        else customInit_media env)"
proof -
  obtain steps n where w: "wait_for_cdrom env 0 = (steps, n)"
    by (cases "wait_for_cdrom env 0")
  from wait_for_cdrom_sleeps [OF w]
  have f: "steps = replicate n Sleep1" "n \<le> 10 \<or> n = 0" "sr0_present env n \<or> 10 \<le> n"
    "\<forall>t<n. \<not> sr0_present env t"
    by simp_all
  from f(2) have le: "n \<le> 10" by auto
  with f(3) have at: "sr0_present env n \<or> n = 10" by auto
  have "customInit_run env = customInit_setup @ replicate n Sleep1 @
       (if \<not> sr0_present env n
        then emergency_shell ''ERROR: CD-ROM device /dev/sr0 not found''
        else customInit_media env)"
    by (simp add: customInit_run_def w f(1))
  with le at f(4) show thesis by (rule that)
qed

lemma count_Sleep1_setup: "count_list customInit_setup Sleep1 = 0"
  by (simp add: customInit_parts)

lemma count_Sleep1_shell: "count_list (emergency_shell msg) Sleep1 = 0"
  by (simp add: customInit_parts)

lemma count_Sleep1_media: "count_list (customInit_media env) Sleep1 = 0"
  by (simp add: customInit_parts)

lemma count_Sleep1_replicate: "count_list (replicate n Sleep1) Sleep1 = n"
  by (induction n) simp_all

lemma count_Sleep1_run:
  assumes "customInit_run env = customInit_setup @ replicate n Sleep1 @
       (if \<not> sr0_present env n
        then emergency_shell ''ERROR: CD-ROM device /dev/sr0 not found''
        else customInit_media env)"
  shows "count_list (customInit_run env) Sleep1 = n"
  by (simp add: assms count_Sleep1_setup count_Sleep1_shell count_Sleep1_media
      count_Sleep1_replicate)

lemma filter_Sleep1_replicate: "filter (\<lambda>s. s \<noteq> Sleep1) (replicate n Sleep1) = []"
  by simp

lemma distinct_no_device:
  "distinct (filter (\<lambda>s. s \<noteq> Sleep1)
     (customInit_setup @ emergency_shell ''ERROR: CD-ROM device /dev/sr0 not found''))"
  by (simp add: customInit_parts)

lemma distinct_no_image:
  "distinct (filter (\<lambda>s. s \<noteq> Sleep1)
     (customInit_setup @ [Cmd ''mkdir -p /media/cdrom'',
        Cmd ''mount -t iso9660 -o ro /dev/sr0 /media/cdrom''] @
      emergency_shell ''ERROR: rootfs.squashfs not found on CD''))"
  by (simp add: customInit_parts)

lemma distinct_switch:
  "distinct (filter (\<lambda>s. s \<noteq> Sleep1)
     (customInit_setup @ [Cmd ''mkdir -p /media/cdrom'',
        Cmd ''mount -t iso9660 -o ro /dev/sr0 /media/cdrom''] @ customInit_overlay))"
  by (simp add: customInit_parts)

lemma distinct_run: "distinct (filter (\<lambda>s. s \<noteq> Sleep1) (customInit_run env))"
proof -
  obtain n where run: "customInit_run env = customInit_setup @ replicate n Sleep1 @
       (if \<not> sr0_present env n
        then emergency_shell ''ERROR: CD-ROM device /dev/sr0 not found''
        else customInit_media env)"
    by (rule customInit_run_shape)
  show ?thesis
  proof (cases "sr0_present env n")
    case False
    with run distinct_no_device show ?thesis by simp
  next
    case True
    show ?thesis
    proof (cases "squashfs_present env")
      case False
      with True run distinct_no_image show ?thesis by (simp add: customInit_media_def)
    next
      case sq: True
      with True run distinct_switch show ?thesis by (simp add: customInit_media_def)
    qed
  qed
qed


text \<open>
  C8. The script sleeps at most ten times, one second each. If the device has not
  appeared by then, it has slept exactly ten times and ends in the emergency shell,
  without mounting the medium and without switching root. If the device appears but the
  medium holds no \<^verbatim>\<open>rootfs.squashfs\<close>, it ends in the emergency shell as well, without
  mounting the image and without switching root; otherwise it ends by switching root.
  Every step other than the sleep of the wait loop is run at most once: nothing else is
  retried.
\<close>

theorem customInit_bounded_wait_and_aborts:
  "count_list (customInit_run env) Sleep1 \<le> 10 \<and>
   ((\<forall>t\<le>10. \<not> sr0_present env t) \<longrightarrow>
      count_list (customInit_run env) Sleep1 = 10 \<and>
      last (customInit_run env) = ExecShell \<and>
      ExecSwitchRoot \<notin> set (customInit_run env) \<and>
      Cmd ''mount -t iso9660 -o ro /dev/sr0 /media/cdrom'' \<notin> set (customInit_run env)) \<and>
   ((\<exists>t\<le>10. sr0_present env t) \<and> \<not> squashfs_present env \<longrightarrow>
      last (customInit_run env) = ExecShell \<and>
      ExecSwitchRoot \<notin> set (customInit_run env) \<and>
      Cmd ''mount -t squashfs -o ro,loop /media/cdrom/rootfs.squashfs /lower''
        \<notin> set (customInit_run env)) \<and>
   ((\<exists>t\<le>10. sr0_present env t) \<and> squashfs_present env \<longrightarrow>
      last (customInit_run env) = ExecSwitchRoot \<and>
      ExecShell \<notin> set (customInit_run env)) \<and>
   distinct (filter (\<lambda>s. s \<noteq> Sleep1) (customInit_run env))"
proof -
  obtain n where n: "n \<le> 10" "sr0_present env n \<or> n = 10" "\<forall>t<n. \<not> sr0_present env t"
    and run: "customInit_run env = customInit_setup @ replicate n Sleep1 @
       (if \<not> sr0_present env n
        then emergency_shell ''ERROR: CD-ROM device /dev/sr0 not found''
        else customInit_media env)"
    by (rule customInit_run_shape)
  have cnt: "count_list (customInit_run env) Sleep1 = n"
    using run by (rule count_Sleep1_run)
  have absent: "n = 10 \<and> \<not> sr0_present env n" if "\<forall>t\<le>10. \<not> sr0_present env t"
    using that n(1,2) by auto
  have present: "sr0_present env n" if "\<exists>t\<le>10. sr0_present env t"
  proof (rule ccontr)
    assume no: "\<not> sr0_present env n"
    with n(2) have "n = 10" by simp
    with n(3) no have "\<forall>t\<le>10. \<not> sr0_present env t"
      by (auto simp: le_less)
    with that show False by blast
  qed
  have a: "count_list (customInit_run env) Sleep1 = 10 \<and>
      last (customInit_run env) = ExecShell \<and>
      ExecSwitchRoot \<notin> set (customInit_run env) \<and>
      Cmd ''mount -t iso9660 -o ro /dev/sr0 /media/cdrom'' \<notin> set (customInit_run env)"
    if h: "\<forall>t\<le>10. \<not> sr0_present env t"
  proof -
    from absent [OF h] have n10: "n = 10" and no: "\<not> sr0_present env n" by blast+
    from run no have r: "customInit_run env = customInit_setup @ replicate n Sleep1 @
        emergency_shell ''ERROR: CD-ROM device /dev/sr0 not found''"
      by simp
    have "last (customInit_run env) = ExecShell \<and>
      ExecSwitchRoot \<notin> set (customInit_run env) \<and>
      Cmd ''mount -t iso9660 -o ro /dev/sr0 /media/cdrom'' \<notin> set (customInit_run env)"
      unfolding r by (simp add: customInit_parts)
    with cnt n10 show ?thesis by simp
  qed
  have b: "last (customInit_run env) = ExecShell \<and>
      ExecSwitchRoot \<notin> set (customInit_run env) \<and>
      Cmd ''mount -t squashfs -o ro,loop /media/cdrom/rootfs.squashfs /lower''
        \<notin> set (customInit_run env)"
    if h: "(\<exists>t\<le>10. sr0_present env t) \<and> \<not> squashfs_present env"
  proof -
    from h present have yes: "sr0_present env n" and nosq: "\<not> squashfs_present env" by blast+
    from run yes nosq have r: "customInit_run env = customInit_setup @ replicate n Sleep1 @
        [Cmd ''mkdir -p /media/cdrom'', Cmd ''mount -t iso9660 -o ro /dev/sr0 /media/cdrom''] @
        emergency_shell ''ERROR: rootfs.squashfs not found on CD''"
      by (simp add: customInit_media_def)
    show ?thesis unfolding r by (simp add: customInit_parts)
  qed
  have c: "last (customInit_run env) = ExecSwitchRoot \<and> ExecShell \<notin> set (customInit_run env)"
    if h: "(\<exists>t\<le>10. sr0_present env t) \<and> squashfs_present env"
  proof -
    from h present have yes: "sr0_present env n" and sq: "squashfs_present env" by blast+
    from run yes sq have r: "customInit_run env = customInit_setup @ replicate n Sleep1 @
        [Cmd ''mkdir -p /media/cdrom'', Cmd ''mount -t iso9660 -o ro /dev/sr0 /media/cdrom''] @
        customInit_overlay"
      by (simp add: customInit_media_def)
    show ?thesis unfolding r by (simp add: customInit_parts)
  qed
  from cnt n(1) a b c distinct_run [of env] show ?thesis by blast
qed

theorem customInit_bounded_wait_and_aborts_witness:
  "count_list (customInit_run no_cdrom) Sleep1 = 10 \<and>
   last (customInit_run no_cdrom) = ExecShell \<and>
   count_list (customInit_run late_cdrom_no_image) Sleep1 = 3 \<and>
   last (customInit_run late_cdrom_no_image) = ExecShell \<and>
   count_list (customInit_run late_cdrom) Sleep1 = 3 \<and>
   last (customInit_run late_cdrom) = ExecSwitchRoot"
proof -
  have h1: "\<forall>t\<le>10. \<not> sr0_present no_cdrom t"
    by (simp add: no_cdrom_def)
  have h2: "(\<exists>t\<le>10. sr0_present late_cdrom_no_image t) \<and> \<not> squashfs_present late_cdrom_no_image"
    by (auto simp: late_cdrom_no_image_def intro: exI [of _ 3])
  have h3: "(\<exists>t\<le>10. sr0_present late_cdrom t) \<and> squashfs_present late_cdrom"
    by (auto simp: late_cdrom_def intro: exI [of _ 3])
  have c2: "count_list (customInit_run late_cdrom_no_image) Sleep1 = 3"
    by code_simp
  have c3: "count_list (customInit_run late_cdrom) Sleep1 = 3"
    by code_simp
  from customInit_bounded_wait_and_aborts [of no_cdrom] h1
  have r1: "count_list (customInit_run no_cdrom) Sleep1 = 10 \<and>
      last (customInit_run no_cdrom) = ExecShell" by blast
  from customInit_bounded_wait_and_aborts [of late_cdrom_no_image] h2
  have r2: "last (customInit_run late_cdrom_no_image) = ExecShell" by blast
  from customInit_bounded_wait_and_aborts [of late_cdrom] h3
  have r3: "last (customInit_run late_cdrom) = ExecSwitchRoot" by blast
  from r1 r2 r3 c2 c3 show ?thesis by blast
qed

section \<open>Properties of the initramfs transcoder\<close>

text \<open>
  C4. An initramfs that is a gzip stream and one that is a member archive without
  compression are both accepted: on a host where nothing fails, both give the same
  result, no error and the file rewritten as the gzip stream of the patched archive. The
  file whose header is not a gzip header is read as a member archive; that it is not
  compressed is no error. Whenever \<^verbatim>\<open>PatchInitramfs\<close> returns \<^verbatim>\<open>nil\<close>, what it has written
  is a gzip stream (cut short only when closing the gzip writer failed, an error the
  code does not look at); it never writes the archive back without compression.
\<close>

theorem PatchInitramfs_accepts_gzip_and_raw:
  "(find_initramfs boot = Some name \<and> (\<forall>e. \<not> os_fails env e) \<and>
    (map_of boot name = Some (Gzip (Cpio entries)) \<or> map_of boot name = Some (Cpio entries)) \<and>
    write_init env (cpio_extract_entries [] entries) = Some patched \<longrightarrow>
      PatchInitramfs env boot =
        (None, AList.update name (if gz_Close_fails env then GzipCut else Gzip (Cpio patched))
           boot)) \<and>
   (fst (PatchInitramfs env boot) = None \<longrightarrow>
      (\<exists>name content. find_initramfs boot = Some name \<and>
         map_of (snd (PatchInitramfs env boot)) name = Some content \<and> gzip_stream content))"
proof (intro conjI impI)
  assume "find_initramfs boot = Some name \<and> (\<forall>e. \<not> os_fails env e) \<and>
    (map_of boot name = Some (Gzip (Cpio entries)) \<or> map_of boot name = Some (Cpio entries)) \<and>
    write_init env (cpio_extract_entries [] entries) = Some patched"
  then show "PatchInitramfs env boot =
        (None, AList.update name (if gz_Close_fails env then GzipCut else Gzip (Cpio patched))
           boot)"
    by (auto simp: PatchInitramfs_def gunzip_def cpio_extract_def)
next
  assume ok: "fst (PatchInitramfs env boot) = None"
  then obtain name where f: "find_initramfs boot = Some name"
    by (cases "find_initramfs boot") (auto simp: PatchInitramfs_def)
  from ok f obtain content where
    "snd (PatchInitramfs env boot) = AList.update name content boot" "gzip_stream content"
    by (auto simp: PatchInitramfs_def update_conv' split: if_splits option.splits sum.splits)
  with f show "\<exists>name content. find_initramfs boot = Some name \<and>
         map_of (snd (PatchInitramfs env boot)) name = Some content \<and> gzip_stream content"
    by (auto simp: update_conv')
qed


theorem PatchInitramfs_accepts_gzip_and_raw_witness:
  "PatchInitramfs quiet_host boot_gzip =
     (None, [(''initramfs-lts'',
              Gzip (Cpio [(''a'', RegularFile 420 ''content of a''), (''b'', Symlink ''a''),
                (''init'', RegularFile 493 customInit)])),
             (''vmlinuz-lts'', Raw ''kernel'')]) \<and>
   PatchInitramfs quiet_host boot_raw =
     (None, [(''initramfs-lts'',
              Gzip (Cpio [(''a'', RegularFile 420 ''content of a''), (''b'', Symlink ''a''),
                (''init'', RegularFile 493 customInit)])),
             (''vmlinuz-lts'', Raw ''kernel'')]) \<and>
   gzip_stream (Gzip (Cpio [(''a'', RegularFile 420 ''content of a''), (''b'', Symlink ''a''),
                (''init'', RegularFile 493 customInit)]))"
proof -
  let ?patched = "[(''a'', RegularFile 420 ''content of a''), (''b'', Symlink ''a''),
                (''init'', RegularFile 493 customInit)]"
  have quiet: "\<forall>e. \<not> os_fails quiet_host e" "\<not> gz_Close_fails quiet_host"
    by (simp_all add: quiet_host_def)
  have w: "write_init quiet_host (cpio_extract_entries [] example_archive) = Some ?patched"
    by (simp add: write_init_def quiet_host_def example_archive_def)
  have fg: "find_initramfs boot_gzip = Some ''initramfs-lts''"
    and fr: "find_initramfs boot_raw = Some ''initramfs-lts''"
    by (simp_all add: find_initramfs_def boot_gzip_def boot_raw_def)
  have mg: "map_of boot_gzip ''initramfs-lts'' = Some (Gzip (Cpio example_archive))"
    and mr: "map_of boot_raw ''initramfs-lts'' = Some (Cpio example_archive)"
    by (simp_all add: boot_gzip_def boot_raw_def)
  from PatchInitramfs_accepts_gzip_and_raw
    [of boot_gzip "''initramfs-lts''" quiet_host example_archive ?patched] quiet w fg mg
  have "PatchInitramfs quiet_host boot_gzip =
      (None, AList.update ''initramfs-lts'' (Gzip (Cpio ?patched)) boot_gzip)"
    by simp
  then have g: "PatchInitramfs quiet_host boot_gzip =
     (None, [(''initramfs-lts'', Gzip (Cpio ?patched)), (''vmlinuz-lts'', Raw ''kernel'')])"
    by (simp add: boot_gzip_def)
  from PatchInitramfs_accepts_gzip_and_raw
    [of boot_raw "''initramfs-lts''" quiet_host example_archive ?patched] quiet w fr mr
  have "PatchInitramfs quiet_host boot_raw =
      (None, AList.update ''initramfs-lts'' (Gzip (Cpio ?patched)) boot_raw)"
    by simp
  then have r: "PatchInitramfs quiet_host boot_raw =
     (None, [(''initramfs-lts'', Gzip (Cpio ?patched)), (''vmlinuz-lts'', Raw ''kernel'')])"
    by (simp add: boot_raw_def)
  from g r show ?thesis by simp
qed

text \<open>
  C3 fails on the code for an archive that holds \<open>init\<close> already. \<^verbatim>\<open>os.WriteFile\<close> applies
  its permission argument only to a file it creates: an \<open>init\<close> of mode \<open>0644\<close> (420)
  holds the script after patching but keeps the mode \<open>0644\<close>, not \<open>0755\<close> (493). And it
  follows a symbolic link: where \<open>init\<close> is a link to \<open>bin/busybox\<close>, the entry \<open>init\<close> is
  still the link after patching, and the script has replaced the content of
  \<open>bin/busybox\<close>.
\<close>

theorem PatchInitramfs_keeps_mode_of_existing_init:
  "PatchInitramfs quiet_host boot_init_0644 =
     (None, [(''initramfs-lts'',
       Gzip (Cpio [(''init'', RegularFile 420 customInit), (''bin/busybox'', RegularFile 493 ''ELF'')]))]) \<and>
   PatchInitramfs quiet_host boot_init_link =
     (None, [(''initramfs-lts'',
       Gzip (Cpio [(''init'', Symlink ''bin/busybox''),
         (''bin/busybox'', RegularFile 493 customInit)]))])"
  by (simp add: PatchInitramfs_def find_initramfs_def gunzip_def cpio_extract_def write_init_def
      quiet_host_def boot_init_0644_def boot_init_link_def dirname_def)

text \<open>
  What the round trip preserves. The paths of an archive are taken to be distinct.
\<close>

lemma map_of_cpio_extract_entries:
  "distinct (map fst es) \<Longrightarrow> set (map fst es) \<inter> set (map fst t) = {} \<Longrightarrow>
   map_of (cpio_extract_entries t es) = map_of t ++ map_of es"
proof (induction es arbitrary: t)
  case Nil
  then show ?case by simp
next
  case (Cons e es)
  obtain p n where e: "e = (p, n)" by (cases e)
  from Cons.prems e have d: "distinct (map fst es)" and np: "p \<notin> set (map fst es)"
    and disj: "set (map fst es) \<inter> set (map fst (AList.update p n t)) = {}"
    by (auto simp: dom_update)
  have "cpio_extract_entries t (e # es) = cpio_extract_entries (AList.update p n t) es"
    using e by simp
  then have "map_of (cpio_extract_entries t (e # es)) = map_of (AList.update p n t) ++ map_of es"
    using Cons.IH [OF d disj] by (simp only:)
  also have "\<dots> = map_of t ++ map_of ((p, n) # es)"
  proof (rule ext)
    fix x
    from np have "map_of es p = None"
      by (simp add: map_of_eq_None_iff)
    then show "(map_of (AList.update p n t) ++ map_of es) x = (map_of t ++ map_of ((p, n) # es)) x"
      by (auto simp: update_conv' map_add_def split: option.splits)
  qed
  finally show ?case unfolding e .
qed

lemma write_init_regular:
  assumes "write_init env t = Some t'"
    and "map_of t ''init'' = None \<or> (\<exists>m c. map_of t ''init'' = Some (RegularFile m c))"
  shows "map_of t' =
    (map_of t)(''init'' \<mapsto> RegularFile (case map_of t ''init'' of
        Some (RegularFile m c) \<Rightarrow> m | _ \<Rightarrow> 493 - and 493 (umask env)) customInit)"
  using assms
  by (auto simp: write_init_def update_conv' split: if_splits)


lemma write_init_succeeds:
  assumes "\<not> os_fails env WritingInit"
    and "map_of t ''init'' = None \<or> (\<exists>m c. map_of t ''init'' = Some (RegularFile m c))"
  shows "\<exists>t'. write_init env t = Some t'"
  using assms by (auto simp: write_init_def)

text \<open>
  For an archive in which \<open>init\<close> is a regular file or absent, on a host where nothing
  fails: every entry other than \<open>init\<close> is in the rewritten archive as it was, no entry is
  added but \<open>init\<close>, and \<open>init\<close> is a regular file that holds the script; its mode is the
  mode it had, or \<open>0755\<close> less the umask when it is new.
\<close>

theorem PatchInitramfs_round_trip_regular_init:
  "find_initramfs boot = Some name \<and> (\<forall>e. \<not> os_fails env e) \<and> \<not> gz_Close_fails env \<and>
   (map_of boot name = Some (Gzip (Cpio entries)) \<or> map_of boot name = Some (Cpio entries)) \<and>
   distinct (map fst entries) \<and>
   (map_of entries ''init'' = None \<or> (\<exists>m c. map_of entries ''init'' = Some (RegularFile m c)))
   \<longrightarrow>
   (\<exists>patched.
      PatchInitramfs env boot = (None, AList.update name (Gzip (Cpio patched)) boot) \<and>
      (\<forall>p. p \<noteq> ''init'' \<longrightarrow> map_of patched p = map_of entries p) \<and>
      map_of patched ''init'' =
        Some (RegularFile
          (case map_of entries ''init'' of
             Some (RegularFile m c) \<Rightarrow> m
           | _ \<Rightarrow> 493 - and 493 (umask env))
          customInit))"
proof (intro impI)
  assume a: "find_initramfs boot = Some name \<and> (\<forall>e. \<not> os_fails env e) \<and> \<not> gz_Close_fails env \<and>
   (map_of boot name = Some (Gzip (Cpio entries)) \<or> map_of boot name = Some (Cpio entries)) \<and>
   distinct (map fst entries) \<and>
   (map_of entries ''init'' = None \<or> (\<exists>m c. map_of entries ''init'' = Some (RegularFile m c)))"
  let ?t = "cpio_extract_entries [] entries"
  from a have ex: "map_of ?t = map_of entries"
    by (simp add: map_of_cpio_extract_entries)
  from a have "map_of entries ''init'' = None \<or>
      (\<exists>m c. map_of entries ''init'' = Some (RegularFile m c))"
    by blast
  then have reg: "map_of ?t ''init'' = None \<or>
      (\<exists>m c. map_of ?t ''init'' = Some (RegularFile m c))"
    by (simp only: ex)
  from a have nf: "\<not> os_fails env WritingInit" by simp
  from write_init_succeeds [OF nf reg] obtain patched where w: "write_init env ?t = Some patched"
    by blast
  from write_init_regular [OF w reg] ex
  have m: "map_of patched =
    (map_of entries)(''init'' \<mapsto> RegularFile (case map_of entries ''init'' of
        Some (RegularFile m c) \<Rightarrow> m | _ \<Rightarrow> 493 - and 493 (umask env)) customInit)"
    by simp
  have run: "PatchInitramfs env boot = (None, AList.update name (Gzip (Cpio patched)) boot)"
    using a w by (auto simp: PatchInitramfs_def gunzip_def cpio_extract_def)
  show "\<exists>patched.
      PatchInitramfs env boot = (None, AList.update name (Gzip (Cpio patched)) boot) \<and>
      (\<forall>p. p \<noteq> ''init'' \<longrightarrow> map_of patched p = map_of entries p) \<and>
      map_of patched ''init'' =
        Some (RegularFile
          (case map_of entries ''init'' of
             Some (RegularFile m c) \<Rightarrow> m
           | _ \<Rightarrow> 493 - and 493 (umask env))
          customInit)"
    using run m by (intro exI [of _ patched]) simp
qed

theorem PatchInitramfs_round_trip_regular_init_witness:
  "\<exists>patched.
      PatchInitramfs quiet_host boot_gzip =
        (None, AList.update ''initramfs-lts'' (Gzip (Cpio patched)) boot_gzip) \<and>
      map_of patched ''a'' = Some (RegularFile 420 ''content of a'') \<and>
      map_of patched ''b'' = Some (Symlink ''a'') \<and>
      map_of patched ''init'' = Some (RegularFile 493 customInit)"
proof -
  have h: "find_initramfs boot_gzip = Some ''initramfs-lts'' \<and>
   (\<forall>e. \<not> os_fails quiet_host e) \<and> \<not> gz_Close_fails quiet_host \<and>
   (map_of boot_gzip ''initramfs-lts'' = Some (Gzip (Cpio example_archive)) \<or>
    map_of boot_gzip ''initramfs-lts'' = Some (Cpio example_archive)) \<and>
   distinct (map fst example_archive) \<and>
   (map_of example_archive ''init'' = None \<or>
    (\<exists>m c. map_of example_archive ''init'' = Some (RegularFile m c)))"
    by (simp add: find_initramfs_def boot_gzip_def quiet_host_def example_archive_def)
  from PatchInitramfs_round_trip_regular_init
    [of boot_gzip "''initramfs-lts''" quiet_host example_archive] h
  obtain patched where
    p: "PatchInitramfs quiet_host boot_gzip =
        (None, AList.update ''initramfs-lts'' (Gzip (Cpio patched)) boot_gzip)"
      "\<forall>p. p \<noteq> ''init'' \<longrightarrow> map_of patched p = map_of example_archive p"
      "map_of patched ''init'' =
        Some (RegularFile
          (case map_of example_archive ''init'' of
             Some (RegularFile m c) \<Rightarrow> m
           | _ \<Rightarrow> 493 - and 493 (umask quiet_host))
          customInit)"
    by blast
  have mode: "(493::nat) - and 493 18 = 493" by simp
  from p(2) have a: "map_of patched ''a'' = Some (RegularFile 420 ''content of a'')"
    and b: "map_of patched ''b'' = Some (Symlink ''a'')"
    by (simp_all add: example_archive_def)
  from p(3) mode have i: "map_of patched ''init'' = Some (RegularFile 493 customInit)"
    by (simp add: example_archive_def quiet_host_def)
  from p(1) a b i show ?thesis by blast
qed

end
